theory Spec2Isabelle
  imports Main
begin

section \<open>Values, errors and the outside world\<close>

text \<open>
  The program (\<^verbatim>\<open>engine2.py\<close>) is sequential glue around four external services.
  Python values that travel through it are JSON-shaped: what \<^verbatim>\<open>response.json()\<close>
  returns, and the dictionaries and lists the code builds from string literals. A dictionary
  is an association list in insertion order (the order \<^verbatim>\<open>json.dumps\<close> prints);
  a lookup finds the first entry of a key. Strings are lists of characters with code points
  below 256. JSON numbers are integers; floating-point numbers are not modelled.
\<close>

datatype json =
    JNull
  | JBool bool
  | JInt int
  | JStr string
  | JList "json list"
  | JDict "(string \<times> json) list"

text \<open>
  An exception that \<^verbatim>\<open>except Exception\<close> catches, with the text of \<^verbatim>\<open>str(e)\<close>.
  The program only logs the messages of the exceptions that Python raises itself; they are
  given in outline. \<open>ExternalError\<close> stands for whatever a library call raises.
\<close>

datatype error =
    KeyError string
  | TypeError string
  | AttributeError string
  | ExternalError string

fun str_of_error :: "error \<Rightarrow> string" where
  "str_of_error (KeyError k) = [CHR 0x27] @ k @ [CHR 0x27]"
| "str_of_error (TypeError m) = m"
| "str_of_error (AttributeError m) = m"
| "str_of_error (ExternalError m) = m"

text \<open>
  The effects a caller can observe are the calls that leave the process, in order:
  the randomised delay, one HTTP request to a service, the HTML parse, the chat request
  to the language model. Logging is left out.
\<close>

datatype service = Google | DuckDuckGo | Wikipedia

datatype event =
    Sleep
  | HttpGet service string
  | ParseHtml string
  | Chat string

text \<open>
  A candidate result block of the parsed page, seen through the three queries the scraper
  makes: the text of the first \<^verbatim>\<open>h3, [role="heading"]\<close> element if there is one, the
  first \<^verbatim>\<open>a\<close> element if there is one together with its \<^verbatim>\<open>href\<close> attribute if it
  has one, and the text of the first snippet element if there is one.
\<close>

record block =
  heading :: "string option"
  anchor :: "string option option"
  snippet_el :: "string option"

text \<open>The reply of the chat endpoint, \<^verbatim>\<open>{message: {role, content}}\<close>.\<close>

record chat_message =
  role :: string
  content :: string

record chat_response =
  message :: chat_message

text \<open>
  The outside world: for each service, what the request made with a given argument ends in,
  an exception (transport failure, timeout, undecodable body) or a reply.
    \<^item> \<open>google_get q\<close>: \<^verbatim>\<open>requests.get(base_url, ...).text\<close> for query \<open>q\<close>;
    \<^item> \<open>soup_select t\<close>: the blocks \<^verbatim>\<open>BeautifulSoup(t, 'html.parser').select(...)\<close> yields;
    \<^item> \<open>ddg_get q\<close>, \<open>wiki_get q\<close>: \<^verbatim>\<open>requests.get(...).json()\<close>;
    \<^item> \<open>ollama_chat p\<close>: \<^verbatim>\<open>ollama.chat(...)\<close> with prompt \<open>p\<close>.
  One run of the pipeline calls each service at most once, so a function of the argument
  is enough.
\<close>

record world =
  google_get :: "string \<Rightarrow> error + string"
  soup_select :: "string \<Rightarrow> error + block list"
  ddg_get :: "string \<Rightarrow> error + json"
  wiki_get :: "string \<Rightarrow> error + json"
  ollama_chat :: "string \<Rightarrow> error + chat_response"

section \<open>Python operations on values\<close>

fun startswith :: "string \<Rightarrow> string \<Rightarrow> bool" where
  "startswith s [] = True"
| "startswith [] (p # ps) = False"
| "startswith (c # cs) (p # ps) = (c = p \<and> startswith cs ps)"

text \<open>\<^verbatim>\<open>p in s\<close> on strings: \<open>p\<close> occurs in \<open>s\<close> as a contiguous substring.\<close>

fun str_contains :: "string \<Rightarrow> string \<Rightarrow> bool" where
  "str_contains [] p = (p = [])"
| "str_contains (c # cs) p = (startswith (c # cs) p \<or> str_contains cs p)"

definition py_isspace :: "char \<Rightarrow> bool" where
  "py_isspace c = (let n = (of_char c :: nat) in
     (9 \<le> n \<and> n \<le> 13) \<or> (28 \<le> n \<and> n \<le> 32) \<or> n = 133 \<or> n = 160)"

definition strip :: "string \<Rightarrow> string" where
  "strip s = rev (dropWhile py_isspace (rev (dropWhile py_isspace s)))"

text \<open>Truth value of a Python object, as \<^verbatim>\<open>not x\<close> and \<^verbatim>\<open>any\<close> use it.\<close>

fun truthy :: "json \<Rightarrow> bool" where
  "truthy JNull = False"
| "truthy (JBool b) = b"
| "truthy (JInt n) = (n \<noteq> 0)"
| "truthy (JStr s) = (s \<noteq> [])"
| "truthy (JList xs) = (xs \<noteq> [])"
| "truthy (JDict kvs) = (kvs \<noteq> [])"

text \<open>\<^verbatim>\<open>d[k] = v\<close> on a dictionary: replace the value in place, or append a new entry.\<close>

fun dict_set :: "(string \<times> json) list \<Rightarrow> string \<Rightarrow> json \<Rightarrow> (string \<times> json) list" where
  "dict_set [] k v = [(k, v)]"
| "dict_set ((k', v') # kvs) k v =
     (if k' = k then (k, v) # kvs else (k', v') # dict_set kvs k v)"

text \<open>\<^verbatim>\<open>x[k]\<close> with a string key.\<close>

fun py_getitem :: "json \<Rightarrow> string \<Rightarrow> error + json" where
  "py_getitem (JDict kvs) k = (case map_of kvs k of None \<Rightarrow> Inl (KeyError k) | Some v \<Rightarrow> Inr v)"
| "py_getitem (JList xs) k = Inl (TypeError ''list indices must be integers or slices, not str'')"
| "py_getitem (JStr s) k = Inl (TypeError ''string indices must be integers'')"
| "py_getitem x k = Inl (TypeError ''object is not subscriptable'')"

text \<open>\<^verbatim>\<open>x[k] = v\<close> with a string key.\<close>

fun py_setitem :: "json \<Rightarrow> string \<Rightarrow> json \<Rightarrow> error + json" where
  "py_setitem (JDict kvs) k v = Inr (JDict (dict_set kvs k v))"
| "py_setitem (JList xs) k v = Inl (TypeError ''list indices must be integers or slices, not str'')"
| "py_setitem x k v = Inl (TypeError ''object does not support item assignment'')"

text \<open>\<^verbatim>\<open>x.get(k, default)\<close>: only dictionaries have the method.\<close>

fun py_get :: "json \<Rightarrow> string \<Rightarrow> json \<Rightarrow> error + json" where
  "py_get (JDict kvs) k d = (case map_of kvs k of None \<Rightarrow> Inr d | Some v \<Rightarrow> Inr v)"
| "py_get x k d = Inl (AttributeError ''object has no attribute get'')"

text \<open>\<^verbatim>\<open>x.values()\<close>.\<close>

fun py_values :: "json \<Rightarrow> error + json list" where
  "py_values (JDict kvs) = Inr (map snd kvs)"
| "py_values x = Inl (AttributeError ''object has no attribute values'')"

text \<open>\<^verbatim>\<open>k in x\<close> for a string \<open>k\<close>: key of a dictionary, element of a list, substring of a string.\<close>

fun py_in :: "string \<Rightarrow> json \<Rightarrow> error + bool" where
  "py_in k (JDict kvs) = Inr (k \<in> set (map fst kvs))"
| "py_in k (JList xs) = Inr (JStr k \<in> set xs)"
| "py_in k (JStr s) = Inr (str_contains s k)"
| "py_in k x = Inl (TypeError ''argument is not iterable'')"

section \<open>\<^verbatim>\<open>json.dumps\<close>\<close>

text \<open>
  The standard encoder with \<^verbatim>\<open>ensure_ascii=True\<close>: inside a string, the quote, the
  backslash and the named control characters get their two-character escapes, every other
  character outside the printable ASCII range \<open>0x20..0x7e\<close> becomes \<^verbatim>\<open>\u00xx\<close>.
\<close>

definition hex_digit :: "nat \<Rightarrow> char" where
  "hex_digit n = (if n < 10 then char_of (48 + n) else char_of (87 + n))"

definition escape_char :: "char \<Rightarrow> string" where
  "escape_char c =
     (if c = CHR 0x22 then [CHR 0x5C, CHR 0x22]
      else if c = CHR 0x5C then [CHR 0x5C, CHR 0x5C]
      else if c = CHR 0x0A then [CHR 0x5C, CHR ''n'']
      else if c = CHR 0x0D then [CHR 0x5C, CHR ''r'']
      else if c = CHR 0x09 then [CHR 0x5C, CHR ''t'']
      else if c = CHR 0x08 then [CHR 0x5C, CHR ''b'']
      else if c = CHR 0x0C then [CHR 0x5C, CHR ''f'']
      else if 32 \<le> (of_char c :: nat) \<and> (of_char c :: nat) \<le> 126 then [c]
      else [CHR 0x5C, CHR ''u'', CHR ''0'', CHR ''0'',
            hex_digit ((of_char c :: nat) div 16), hex_digit ((of_char c :: nat) mod 16)])"

definition encode_str :: "string \<Rightarrow> string" where
  "encode_str s = CHR 0x22 # concat (map escape_char s) @ [CHR 0x22]"

fun str_of_nat :: "nat \<Rightarrow> string" where
  "str_of_nat n =
     (if n < 10 then [char_of (48 + n)] else str_of_nat (n div 10) @ [char_of (48 + n mod 10)])"

declare str_of_nat.simps [simp del]

definition str_of_int :: "int \<Rightarrow> string" where
  "str_of_int i = (if i < 0 then CHR ''-'' # str_of_nat (nat (- i)) else str_of_nat (nat i))"

fun join :: "string \<Rightarrow> string list \<Rightarrow> string" where
  "join sep [] = []"
| "join sep [x] = x"
| "join sep (x # y # ys) = x @ sep @ join sep (y # ys)"

text \<open>
  With \<^verbatim>\<open>indent=n\<close> every item starts on a new line, indented by \<open>n\<close> spaces per
  nesting level, and the item separator is a bare comma; without \<^verbatim>\<open>indent\<close> there are
  no line breaks and the separator is a comma and a space. The key separator is a colon and
  a space in both cases. Empty containers print as \<^verbatim>\<open>[]\<close> and \<^verbatim>\<open>{}\<close>.
\<close>

fun newline_indent :: "nat option \<Rightarrow> nat \<Rightarrow> string" where
  "newline_indent None lvl = []"
| "newline_indent (Some n) lvl = CHR ''\<newline>'' # replicate (n * lvl) CHR '' ''"

fun item_separator :: "nat option \<Rightarrow> nat \<Rightarrow> string" where
  "item_separator None lvl = '', ''"
| "item_separator (Some n) lvl = '','' @ newline_indent (Some n) lvl"

fun encode :: "nat option \<Rightarrow> nat \<Rightarrow> json \<Rightarrow> string" where
  "encode ind lvl JNull = ''null''"
| "encode ind lvl (JBool b) = (if b then ''true'' else ''false'')"
| "encode ind lvl (JInt i) = str_of_int i"
| "encode ind lvl (JStr s) = encode_str s"
| "encode ind lvl (JList xs) =
     (if xs = [] then ''[]''
      else ''['' @ newline_indent ind (Suc lvl)
           @ join (item_separator ind (Suc lvl)) (map (encode ind (Suc lvl)) xs)
           @ newline_indent ind lvl @ '']'')"
| "encode ind lvl (JDict kvs) =
     (if kvs = [] then ''{}''
      else ''{'' @ newline_indent ind (Suc lvl)
           @ join (item_separator ind (Suc lvl))
               (map (\<lambda>kv. encode_str (fst kv) @ '': '' @ encode ind (Suc lvl) (snd kv)) kvs)
           @ newline_indent ind lvl @ ''}'')"

definition dumps :: "nat option \<Rightarrow> json \<Rightarrow> string" where
  "dumps ind v = encode ind 0 v"

section \<open>The clients\<close>

subsection \<open>\<^verbatim>\<open>search_wikipedia\<close>\<close>

text \<open>
  One request; the decoded reply is returned as it is, and any exception becomes the mapping
  \<^verbatim>\<open>{"error": str(e)}\<close>.
\<close>

definition search_wikipedia :: "world \<Rightarrow> string \<Rightarrow> json \<times> event list" where
  "search_wikipedia w q =
     (case wiki_get w q of
        Inl e \<Rightarrow> (JDict [(''error'', JStr (str_of_error e))], [HttpGet Wikipedia q])
      | Inr v \<Rightarrow> (v, [HttpGet Wikipedia q]))"

subsection \<open>\<^verbatim>\<open>search_duckduckgo\<close>\<close>

text \<open>The body of the \<^verbatim>\<open>try\<close>: the request, then the list literal with its three \<^verbatim>\<open>data.get\<close> calls.\<close>

definition search_duckduckgo_try :: "world \<Rightarrow> string \<Rightarrow> error + json list" where
  "search_duckduckgo_try w q =
     (case ddg_get w q of
        Inl e \<Rightarrow> Inl e
      | Inr data \<Rightarrow>
          (case py_get data ''Heading'' (JStr []) of
             Inl e \<Rightarrow> Inl e
           | Inr title \<Rightarrow>
               (case py_get data ''AbstractURL'' (JStr []) of
                  Inl e \<Rightarrow> Inl e
                | Inr url \<Rightarrow>
                    (case py_get data ''AbstractText'' (JStr []) of
                       Inl e \<Rightarrow> Inl e
                     | Inr snippet \<Rightarrow>
                         Inr [JDict [(''title'', title), (''url'', url), (''snippet'', snippet),
                                     (''source'', JStr ''duckduckgo'')]]))))"

definition search_duckduckgo :: "world \<Rightarrow> string \<Rightarrow> json list \<times> event list" where
  "search_duckduckgo w q =
     (case search_duckduckgo_try w q of
        Inl e \<Rightarrow> ([], [HttpGet DuckDuckGo q])
      | Inr r \<Rightarrow> (r, [HttpGet DuckDuckGo q]))"

subsection \<open>\<^verbatim>\<open>search_google\<close>\<close>

definition block_indicators :: "string list" where
  "block_indicators = [''CAPTCHA'', ''unusual traffic'', ''automated requests'']"

definition blocked :: "string \<Rightarrow> bool" where
  "blocked text = list_ex (\<lambda>phrase. str_contains text phrase) block_indicators"

text \<open>
  The body of the inner \<^verbatim>\<open>try\<close>, for one block: an exception (\<open>Inl\<close>), the
  \<^verbatim>\<open>continue\<close> of the URL filter (\<open>Inr None\<close>), or the record to append.
  \<^verbatim>\<open>.text\<close> on a missing heading raises AttributeError, \<^verbatim>\<open>['href']\<close> raises TypeError
  on a missing anchor and KeyError on an anchor without the attribute; a missing snippet
  element is the empty text.
\<close>

definition extract_block :: "block \<Rightarrow> error + json option" where
  "extract_block b =
     (case heading b of
        None \<Rightarrow> Inl (AttributeError ''NoneType object has no attribute text'')
      | Some title \<Rightarrow>
          (case anchor b of
             None \<Rightarrow> Inl (TypeError ''NoneType object is not subscriptable'')
           | Some None \<Rightarrow> Inl (KeyError ''href'')
           | Some (Some url) \<Rightarrow>
               (let snippet_text = (case snippet_el b of Some t \<Rightarrow> t | None \<Rightarrow> [])
                in if startswith url ''/search?'' \<or> startswith url ''/url?'' then Inr None
                   else Inr (Some (JDict [(''title'', JStr (strip title)), (''url'', JStr url),
                                          (''snippet'', JStr (strip snippet_text)),
                                          (''source'', JStr ''google'')])))))"

text \<open>The \<^verbatim>\<open>for\<close> loop over the blocks, with the list \<^verbatim>\<open>results\<close> as accumulator.\<close>

fun extract_loop :: "block list \<Rightarrow> json list \<Rightarrow> json list" where
  "extract_loop [] results = results"
| "extract_loop (b # bs) results =
     (case extract_block b of
        Inl e \<Rightarrow> extract_loop bs results
      | Inr None \<Rightarrow> extract_loop bs results
      | Inr (Some r) \<Rightarrow> extract_loop bs (results @ [r]))"

text \<open>The body of the outer \<^verbatim>\<open>try\<close>, with the calls made so far.\<close>

definition search_google_try :: "world \<Rightarrow> string \<Rightarrow> (error + json list) \<times> event list" where
  "search_google_try w q =
     (case google_get w q of
        Inl e \<Rightarrow> (Inl e, [Sleep, HttpGet Google q])
      | Inr text \<Rightarrow>
          if blocked text then (Inr [], [Sleep, HttpGet Google q])
          else (case soup_select w text of
                  Inl e \<Rightarrow> (Inl e, [Sleep, HttpGet Google q, ParseHtml text])
                | Inr blocks \<Rightarrow>
                    (Inr (extract_loop blocks []), [Sleep, HttpGet Google q, ParseHtml text])))"

definition search_google :: "world \<Rightarrow> string \<Rightarrow> json list \<times> event list" where
  "search_google w q =
     (case search_google_try w q of
        (Inl e, tr) \<Rightarrow> ([], tr)
      | (Inr results, tr) \<Rightarrow> (results, tr))"

section \<open>The aggregator, \<^verbatim>\<open>combine_results\<close>\<close>

definition initial_combined :: "string \<Rightarrow> json" where
  "initial_combined q =
     JDict [(''query'', JStr q),
            (''sources'', JDict [(''google'', JList []), (''wikipedia'', JDict []),
                                 (''fallback'', JList [])])]"

text \<open>
  \<^verbatim>\<open>combined["sources"][k] = v\<close>. The inner dictionary is mutated in place; in the model
  the updated inner dictionary is stored back under \<^verbatim>\<open>"sources"\<close>.
\<close>

definition set_source :: "json \<Rightarrow> string \<Rightarrow> json \<Rightarrow> error + json" where
  "set_source combined k v =
     (case py_getitem combined ''sources'' of
        Inl e \<Rightarrow> Inl e
      | Inr srcs \<Rightarrow>
          (case py_setitem srcs k v of
             Inl e \<Rightarrow> Inl e
           | Inr srcs' \<Rightarrow> py_setitem combined ''sources'' srcs'))"

text \<open>The block under \<^verbatim>\<open>if use_google\<close>: the new value of \<^verbatim>\<open>combined\<close>, or an exception.\<close>

definition web_step :: "world \<Rightarrow> string \<Rightarrow> json \<Rightarrow> (error + json) \<times> event list" where
  "web_step w q combined =
     (case search_google w q of
        (google_results, tr) \<Rightarrow>
          if \<not> truthy (JList google_results) then
            (case search_duckduckgo w q of
               (fb, tr') \<Rightarrow> (set_source combined ''fallback'' (JList fb), tr @ tr'))
          else (set_source combined ''google'' (JList google_results), tr))"

text \<open>
  The dictionary literal stored under \<^verbatim>\<open>"wikipedia"\<close>:
  \<^verbatim>\<open>wiki_data["query"]["search"]\<close>, then
  \<^verbatim>\<open>wiki_data["query"].get("searchinfo", {}).get("suggestion")\<close>.
\<close>

definition wiki_fields :: "json \<Rightarrow> error + json" where
  "wiki_fields wiki_data =
     (case py_getitem wiki_data ''query'' of
        Inl e \<Rightarrow> Inl e
      | Inr qv \<Rightarrow>
          (case py_getitem qv ''search'' of
             Inl e \<Rightarrow> Inl e
           | Inr results \<Rightarrow>
               (case py_get qv ''searchinfo'' (JDict []) of
                  Inl e \<Rightarrow> Inl e
                | Inr info \<Rightarrow>
                    (case py_get info ''suggestion'' JNull of
                       Inl e \<Rightarrow> Inl e
                     | Inr suggestion \<Rightarrow>
                         Inr (JDict [(''results'', results), (''suggestion'', suggestion)])))))"

text \<open>The block under \<^verbatim>\<open>if use_wiki\<close>.\<close>

definition wiki_step :: "world \<Rightarrow> string \<Rightarrow> json \<Rightarrow> (error + json) \<times> event list" where
  "wiki_step w q combined =
     (case search_wikipedia w q of
        (wiki_data, tr) \<Rightarrow>
          (case py_in ''query'' wiki_data of
             Inl e \<Rightarrow> (Inl e, tr)
           | Inr False \<Rightarrow> (Inr combined, tr)
           | Inr True \<Rightarrow>
               (case wiki_fields wiki_data of
                  Inl e \<Rightarrow> (Inl e, tr)
                | Inr entry \<Rightarrow> (set_source combined ''wikipedia'' entry, tr))))"

text \<open>
  Each step assigns to \<^verbatim>\<open>combined\<close> at most once, as its last action, so when a step
  raises, \<^verbatim>\<open>combined\<close> is what it was before the step; the \<^verbatim>\<open>except\<close> branch returns it.
\<close>

definition combine_results :: "world \<Rightarrow> string \<Rightarrow> bool \<Rightarrow> bool \<Rightarrow> json \<times> event list" where
  "combine_results w q use_google use_wiki =
     (let combined = initial_combined q in
      case (if use_google then web_step w q combined else (Inr combined, [])) of
        (Inl e, tr) \<Rightarrow> (combined, tr)
      | (Inr combined1, tr) \<Rightarrow>
          if use_wiki then
            (case wiki_step w q combined1 of
               (Inl e, tr') \<Rightarrow> (combined1, tr @ tr')
             | (Inr combined2, tr') \<Rightarrow> (combined2, tr @ tr'))
          else (combined1, tr))"

section \<open>The synthesizer, \<^verbatim>\<open>generate_answer\<close>\<close>

definition no_results_message :: string where
  "no_results_message =
     ''No search results found. Try rephrasing your question or check your network connection.''"

definition build_prompt :: "string \<Rightarrow> string \<Rightarrow> string" where
  "build_prompt q ctxt =
     ''Analyze available information and answer:\<newline>    Query: '' @ q
     @ ''\<newline>    Available Context: '' @ ctxt
     @ ''\<newline>    \<newline>    If information is conflicting:''
     @ ''\<newline>    - Prioritize official sources''
     @ ''\<newline>    - Note disagreements in the answer''
     @ ''\<newline>    - Maintain neutral tone''
     @ ''\<newline>    \<newline>    Structure your answer with:''
     @ ''\<newline>    1. Key points''
     @ ''\<newline>    2. Step-by-step instructions (if applicable)''
     @ ''\<newline>    3. Common mistakes to avoid''"

text \<open>
  The result is an exception raised before the \<^verbatim>\<open>try\<close> (the subscript or
  \<^verbatim>\<open>.values()\<close> on a malformed argument), or the answer; the trace holds the chat
  request when one was made.
\<close>

definition generate_answer :: "world \<Rightarrow> string \<Rightarrow> json \<Rightarrow> (error + string) \<times> event list" where
  "generate_answer w q combined_results =
     (let ctxt = dumps (Some 2) combined_results in
      case py_getitem combined_results ''sources'' of
        Inl e \<Rightarrow> (Inl e, [])
      | Inr srcs \<Rightarrow>
          (case py_values srcs of
             Inl e \<Rightarrow> (Inl e, [])
           | Inr vs \<Rightarrow>
               if \<not> list_ex truthy vs then (Inr no_results_message, [])
               else
                 (let prompt = build_prompt q ctxt in
                  case ollama_chat w prompt of
                    Inl e \<Rightarrow> (Inr (''Error generating answer: '' @ str_of_error e), [Chat prompt])
                  | Inr response \<Rightarrow> (Inr (content (message response)), [Chat prompt]))))"

section \<open>The orchestrator, \<^verbatim>\<open>full_pipeline\<close>\<close>

definition full_pipeline :: "world \<Rightarrow> string \<Rightarrow> bool \<Rightarrow> bool \<Rightarrow> (string \<times> string) \<times> event list" where
  "full_pipeline w q use_google use_wiki =
     (case combine_results w q use_google use_wiki of
        (results, tr) \<Rightarrow>
          (case generate_answer w q results of
             (Inl e, tr') \<Rightarrow>
               ((''Pipeline error: '' @ str_of_error e,
                 dumps None (JDict [(''error'', JStr (str_of_error e))])), tr @ tr')
           | (Inr answer, tr') \<Rightarrow> ((answer, dumps (Some 2) results), tr @ tr')))"

section \<open>Notions used in the statements\<close>

text \<open>
  The fixed shape of the aggregate,
  \<^verbatim>\<open>{"query": q, "sources": {"google": g, "wikipedia": wk, "fallback": f}}\<close>,
  with a list, a mapping and a list in the three source fields.
\<close>

definition composite :: "string \<Rightarrow> json list \<Rightarrow> (string \<times> json) list \<Rightarrow> json list \<Rightarrow> json" where
  "composite q g wk f =
     JDict [(''query'', JStr q),
            (''sources'', JDict [(''google'', JList g), (''wikipedia'', JDict wk),
                                 (''fallback'', JList f)])]"

text \<open>\<^verbatim>\<open>combined["sources"][k]\<close>, read from an aggregate.\<close>

definition source_of :: "json \<Rightarrow> string \<Rightarrow> error + json" where
  "source_of combined k =
     (case py_getitem combined ''sources'' of Inl e \<Rightarrow> Inl e | Inr srcs \<Rightarrow> py_getitem srcs k)"

text \<open>
  The number of requests sent to the secondary search API in a trace. Every call of
  \<^verbatim>\<open>search_duckduckgo\<close> sends exactly one, so this counts its invocations.
\<close>

definition fallback_calls :: "event list \<Rightarrow> nat" where
  "fallback_calls tr =
     length (filter (\<lambda>ev. case ev of HttpGet DuckDuckGo q \<Rightarrow> True | _ \<Rightarrow> False) tr)"

section \<open>Concrete worlds\<close>

text \<open>No service can be reached: every request raises.\<close>

definition offline :: world where
  "offline =
     \<lparr> google_get = (\<lambda>q. Inl (ExternalError ''connection refused'')),
       soup_select = (\<lambda>t. Inr []),
       ddg_get = (\<lambda>q. Inl (ExternalError ''connection refused'')),
       wiki_get = (\<lambda>q. Inl (ExternalError ''connection refused'')),
       ollama_chat = (\<lambda>p. Inl (ExternalError ''connection refused'')) \<rparr>"

definition good_block :: block where
  "good_block = \<lparr> heading = Some ''Cats'', anchor = Some (Some ''https://cats.example/''),
                   snippet_el = Some '' All about cats '' \<rparr>"

text \<open>A result block with no title element.\<close>

definition untitled_block :: block where
  "untitled_block = \<lparr> heading = None, anchor = Some (Some ''https://dogs.example/''),
                       snippet_el = None \<rparr>"

text \<open>The secondary API answers with a mapping that has none of the three fields.\<close>

definition ddg_empty_world :: world where
  "ddg_empty_world = offline\<lparr>ddg_get := (\<lambda>q. Inr (JDict []))\<rparr>"

text \<open>The search engine answers with a challenge page.\<close>

definition captcha_world :: world where
  "captcha_world =
     offline\<lparr>google_get := (\<lambda>q. Inr ''<html>Please solve this CAPTCHA</html>''),
              soup_select := (\<lambda>t. Inr [good_block])\<rparr>"

text \<open>The search engine answers with three result blocks, the middle one without a title.\<close>

definition scraped_world :: world where
  "scraped_world =
     offline\<lparr>google_get := (\<lambda>q. Inr ''<html>results</html>''),
              soup_select := (\<lambda>t. Inr [good_block, untitled_block, good_block])\<rparr>"

text \<open>Wikipedia answers with a \<^verbatim>\<open>query\<close> field that has no \<^verbatim>\<open>search\<close> list.\<close>

definition wiki_malformed_world :: world where
  "wiki_malformed_world = offline\<lparr>wiki_get := (\<lambda>q. Inr (JDict [(''query'', JDict [])]))\<rparr>"

text \<open>Wikipedia answers successfully with no hits.\<close>

definition wiki_no_hits_world :: world where
  "wiki_no_hits_world =
     offline\<lparr>wiki_get := (\<lambda>q. Inr (JDict [(''batchcomplete'', JStr []),
                                             (''query'', JDict [(''search'', JList [])])]))\<rparr>"

text \<open>The search engine answers with result blocks, and Wikipedia with a \<^verbatim>\<open>query\<close> field that has
  no \<^verbatim>\<open>search\<close> list.\<close>

definition scraped_wiki_malformed_world :: world where
  "scraped_wiki_malformed_world =
     scraped_world\<lparr>wiki_get := (\<lambda>q. Inr (JDict [(''query'', JDict [])]))\<rparr>"

text \<open>Wikipedia answers successfully with no hits and a spelling suggestion.\<close>

definition wiki_suggestion_world :: world where
  "wiki_suggestion_world =
     offline\<lparr>wiki_get := (\<lambda>q. Inr (JDict [(''batchcomplete'', JStr []),
        (''query'', JDict [(''searchinfo'', JDict [(''totalhits'', JInt 0),
                                                   (''suggestion'', JStr ''cats'')]),
                           (''search'', JList [])])]))\<rparr>"

text \<open>Wikipedia answers with no hits and a \<^verbatim>\<open>searchinfo\<close> field that is \<^verbatim>\<open>null\<close>.\<close>

definition wiki_null_info_world :: world where
  "wiki_null_info_world =
     offline\<lparr>wiki_get := (\<lambda>q. Inr (JDict [(''query'', JDict [(''searchinfo'', JNull),
                                                              (''search'', JList [])])]))\<rparr>"

section \<open>Reading JSON text\<close>

text \<open>
  A reader for JSON text (RFC 8259), used to say that a string parses as JSON. It is strict:
  control characters inside a string must be escaped, a number has no leading zero, and
  nothing but whitespace may follow the value. In line with the value type above it reads
  integers only, and \<^verbatim>\<open>\uXXXX\<close> escapes of code points below 256; any other text is
  rejected. An object keeps all its members in order. The recursion is on a fuel counter
  that \<open>loads\<close> sets to the length of the text, which is more than the reader can use.
\<close>

definition is_ws :: "char \<Rightarrow> bool" where
  "is_ws c = (c = CHR '' '' \<or> c = CHR ''\<newline>'' \<or> c = CHR 0x0D \<or> c = CHR 0x09)"

definition skip_ws :: "string \<Rightarrow> string" where
  "skip_ws s = dropWhile is_ws s"

definition is_digit :: "char \<Rightarrow> bool" where
  "is_digit c = (48 \<le> (of_char c :: nat) \<and> (of_char c :: nat) \<le> 57)"

definition digit_val :: "char \<Rightarrow> nat" where
  "digit_val c = (of_char c :: nat) - 48"

definition hex_val :: "char \<Rightarrow> nat option" where
  "hex_val c =
     (let n = (of_char c :: nat) in
      if 48 \<le> n \<and> n \<le> 57 then Some (n - 48)
      else if 97 \<le> n \<and> n \<le> 102 then Some (n - 87)
      else if 65 \<le> n \<and> n \<le> 70 then Some (n - 55)
      else None)"

definition hex4_val :: "char \<Rightarrow> char \<Rightarrow> char \<Rightarrow> char \<Rightarrow> nat option" where
  "hex4_val h1 h2 h3 h4 =
     (case hex_val h1 of None \<Rightarrow> None | Some a \<Rightarrow>
      case hex_val h2 of None \<Rightarrow> None | Some b \<Rightarrow>
      case hex_val h3 of None \<Rightarrow> None | Some c \<Rightarrow>
      case hex_val h4 of None \<Rightarrow> None | Some d \<Rightarrow> Some (((a * 16 + b) * 16 + c) * 16 + d))"

definition unescape :: "char \<Rightarrow> char option" where
  "unescape e =
     (if e = CHR 0x22 then Some (CHR 0x22)
      else if e = CHR 0x5C then Some (CHR 0x5C)
      else if e = CHR ''/'' then Some (CHR ''/'')
      else if e = CHR ''b'' then Some (CHR 0x08)
      else if e = CHR ''f'' then Some (CHR 0x0C)
      else if e = CHR ''n'' then Some (CHR 0x0A)
      else if e = CHR ''r'' then Some (CHR 0x0D)
      else if e = CHR ''t'' then Some (CHR 0x09)
      else None)"

text \<open>The characters of a string after its opening quote, up to the closing quote.\<close>

fun parse_chars :: "string \<Rightarrow> (string \<times> string) option" where
  "parse_chars [] = None"
| "parse_chars (c # cs) =
     (if c = CHR 0x22 then Some ([], cs)
      else if c = CHR 0x5C then
        (case cs of
           [] \<Rightarrow> None
         | e # r \<Rightarrow>
             if e = CHR ''u'' then
               (case r of
                  h1 # h2 # h3 # h4 # r' \<Rightarrow>
                    (case hex4_val h1 h2 h3 h4 of
                       None \<Rightarrow> None
                     | Some n \<Rightarrow>
                         if n < 256
                         then map_option (\<lambda>(s, t). (char_of n # s, t)) (parse_chars r')
                         else None)
                | _ \<Rightarrow> None)
             else
               (case unescape e of
                  None \<Rightarrow> None
                | Some x \<Rightarrow> map_option (\<lambda>(s, t). (x # s, t)) (parse_chars r)))
      else if (of_char c :: nat) < 32 then None
      else map_option (\<lambda>(s, t). (c # s, t)) (parse_chars cs))"

definition parse_nat :: "string \<Rightarrow> (nat \<times> string) option" where
  "parse_nat s =
     (let ds = takeWhile is_digit s; rest = dropWhile is_digit s in
      if ds = [] then None
      else if hd ds = CHR ''0'' \<and> 1 < length ds then None
      else if rest \<noteq> [] \<and> hd rest \<in> set ''.eE'' then None
      else Some (foldl (\<lambda>a c. 10 * a + digit_val c) 0 ds, rest))"

definition parse_int :: "string \<Rightarrow> (json \<times> string) option" where
  "parse_int s =
     (case s of
        [] \<Rightarrow> None
      | c # cs \<Rightarrow>
          if c = CHR ''-'' then map_option (\<lambda>(n, r). (JInt (- int n), r)) (parse_nat cs)
          else map_option (\<lambda>(n, r). (JInt (int n), r)) (parse_nat s))"

fun parse_value :: "nat \<Rightarrow> string \<Rightarrow> (json \<times> string) option"
  and parse_elems :: "nat \<Rightarrow> string \<Rightarrow> (json list \<times> string) option"
  and parse_members :: "nat \<Rightarrow> string \<Rightarrow> ((string \<times> json) list \<times> string) option" where
  "parse_value 0 s = None"
| "parse_value (Suc n) s =
     (case s of
        [] \<Rightarrow> None
      | c # cs \<Rightarrow>
          if c = CHR ''n'' then (if take 3 cs = ''ull'' then Some (JNull, drop 3 cs) else None)
          else if c = CHR ''t'' then (if take 3 cs = ''rue'' then Some (JBool True, drop 3 cs) else None)
          else if c = CHR ''f'' then (if take 4 cs = ''alse'' then Some (JBool False, drop 4 cs) else None)
          else if c = CHR 0x22 then map_option (\<lambda>(x, r). (JStr x, r)) (parse_chars cs)
          else if c = CHR ''['' then
            (case skip_ws cs of
               [] \<Rightarrow> None
             | d # ds \<Rightarrow>
                 if d = CHR '']'' then Some (JList [], ds)
                 else map_option (\<lambda>(xs, r). (JList xs, r)) (parse_elems n (d # ds)))
          else if c = CHR ''{'' then
            (case skip_ws cs of
               [] \<Rightarrow> None
             | d # ds \<Rightarrow>
                 if d = CHR ''}'' then Some (JDict [], ds)
                 else map_option (\<lambda>(kvs, r). (JDict kvs, r)) (parse_members n (d # ds)))
          else parse_int s)"
| "parse_elems 0 s = None"
| "parse_elems (Suc n) s =
     (case parse_value n s of
        None \<Rightarrow> None
      | Some (v, r) \<Rightarrow>
          (case skip_ws r of
             [] \<Rightarrow> None
           | d # ds \<Rightarrow>
               if d = CHR '']'' then Some ([v], ds)
               else if d = CHR '','' then
                 map_option (\<lambda>(vs, r'). (v # vs, r')) (parse_elems n (skip_ws ds))
               else None))"
| "parse_members 0 s = None"
| "parse_members (Suc n) s =
     (case s of
        [] \<Rightarrow> None
      | c # cs \<Rightarrow>
          if c \<noteq> CHR 0x22 then None
          else
            (case parse_chars cs of
               None \<Rightarrow> None
             | Some (k, r) \<Rightarrow>
                 (case skip_ws r of
                    [] \<Rightarrow> None
                  | d # ds \<Rightarrow>
                      if d \<noteq> CHR '':'' then None
                      else
                        (case parse_value n (skip_ws ds) of
                           None \<Rightarrow> None
                         | Some (v, r') \<Rightarrow>
                             (case skip_ws r' of
                                [] \<Rightarrow> None
                              | e # es \<Rightarrow>
                                  if e = CHR ''}'' then Some ([(k, v)], es)
                                  else if e = CHR '','' then
                                    map_option (\<lambda>(kvs, r''). ((k, v) # kvs, r''))
                                      (parse_members n (skip_ws es))
                                  else None)))))"

definition loads :: "string \<Rightarrow> json option" where
  "loads s =
     (case parse_value (Suc (length s)) (skip_ws s) of
        None \<Rightarrow> None
      | Some (v, r) \<Rightarrow> if skip_ws r = [] then Some v else None)"

text \<open>
  Two notions for the proofs about the encoder: the text that may follow a value in its
  output (nothing, a comma, a closing bracket or brace, a line break), and the text that
  starts like a value (not with whitespace, a comma or a closing bracket or brace).
\<close>

definition follows_value :: "string \<Rightarrow> bool" where
  "follows_value rest = (rest = [] \<or> hd rest \<in> set '',]}\<newline>'')"

definition value_start :: "string \<Rightarrow> bool" where
  "value_start s = (s \<noteq> [] \<and> \<not> is_ws (hd s) \<and> hd s \<noteq> CHR '']'' \<and> hd s \<noteq> CHR ''}''
                     \<and> hd s \<noteq> CHR '','')"

section \<open>Auxiliary facts\<close>

lemma initial_composite: "initial_combined q = composite q [] [] []"
  by (simp add: initial_combined_def composite_def)

lemma set_source_google: "set_source (composite q g wk f) ''google'' (JList g') = Inr (composite q g' wk f)"
  by (simp add: set_source_def composite_def)

lemma set_source_fallback: "set_source (composite q g wk f) ''fallback'' (JList f') = Inr (composite q g wk f')"
  by (simp add: set_source_def composite_def)

lemma set_source_wikipedia: "set_source (composite q g wk f) ''wikipedia'' (JDict wk') = Inr (composite q g wk' f)"
  by (simp add: set_source_def composite_def)

lemma source_of_composite:
  "source_of (composite q g wk f) ''google'' = Inr (JList g)"
  "source_of (composite q g wk f) ''wikipedia'' = Inr (JDict wk)"
  "source_of (composite q g wk f) ''fallback'' = Inr (JList f)"
  by (simp_all add: source_of_def composite_def)

lemma search_google_trace: "fallback_calls (snd (search_google w q)) = 0"
  by (simp add: search_google_def search_google_try_def fallback_calls_def split: sum.splits prod.splits)

lemma search_duckduckgo_trace: "snd (search_duckduckgo w q) = [HttpGet DuckDuckGo q]"
  by (simp add: search_duckduckgo_def split: sum.splits)

lemma search_wikipedia_trace: "snd (search_wikipedia w q) = [HttpGet Wikipedia q]"
  by (simp add: search_wikipedia_def split: sum.splits)

lemma fallback_calls_append: "fallback_calls (xs @ ys) = fallback_calls xs + fallback_calls ys"
  by (simp add: fallback_calls_def)

lemma web_step_composite:
  "web_step w q (composite q' g wk f) =
     (if fst (search_google w q) = []
      then (Inr (composite q' g wk (fst (search_duckduckgo w q))),
            snd (search_google w q) @ snd (search_duckduckgo w q))
      else (Inr (composite q' (fst (search_google w q)) wk f), snd (search_google w q)))"
  by (simp add: web_step_def set_source_google set_source_fallback split: prod.splits)

lemma wiki_fields_dict: "wiki_fields wd = Inr entry \<Longrightarrow> \<exists>kvs. entry = JDict kvs"
  by (auto simp: wiki_fields_def split: sum.splits)

lemma wiki_step_composite:
  assumes "wiki_step w q (composite q' g wk f) = (r, tr)"
  shows "tr = [HttpGet Wikipedia q]"
    and "case r of Inl e \<Rightarrow> True | Inr c \<Rightarrow> \<exists>wk'. c = composite q' g wk' f"
proof -
  obtain wd where wd: "search_wikipedia w q = (wd, [HttpGet Wikipedia q])"
    using search_wikipedia_trace[of w q] by (cases "search_wikipedia w q") simp
  show "tr = [HttpGet Wikipedia q]"
    using assms by (auto simp: wiki_step_def wd split: sum.splits bool.splits)
  show "case r of Inl e \<Rightarrow> True | Inr c \<Rightarrow> \<exists>wk'. c = composite q' g wk' f"
  proof (cases r)
    case (Inl e)
    then show ?thesis by simp
  next
    case (Inr c)
    show ?thesis
    proof (cases "py_in ''query'' wd")
      case (Inl e)
      with assms Inr show ?thesis by (simp add: wiki_step_def wd)
    next
      case b: (Inr b)
      show ?thesis
      proof (cases b)
        case False
        with assms Inr b show ?thesis by (auto simp: wiki_step_def wd)
      next
        case True
        show ?thesis
        proof (cases "wiki_fields wd")
          case (Inl e)
          with assms Inr b True show ?thesis by (simp add: wiki_step_def wd)
        next
          case entry: (Inr entry)
          then obtain kvs where "entry = JDict kvs" using wiki_fields_dict by blast
          with assms Inr b True entry show ?thesis
            by (auto simp: wiki_step_def wd set_source_wikipedia)
        qed
      qed
    qed
  qed
qed

lemma combine_results_web_only:
  "combine_results w q ug False =
     (if ug then
        (if fst (search_google w q) = []
         then (composite q [] [] (fst (search_duckduckgo w q)),
               snd (search_google w q) @ snd (search_duckduckgo w q))
         else (composite q (fst (search_google w q)) [] [], snd (search_google w q)))
      else (composite q [] [] [], []))"
  by (simp add: combine_results_def initial_composite web_step_composite)

lemma combine_results_with_wiki:
  "combine_results w q ug True =
     (case wiki_step w q (fst (combine_results w q ug False)) of
        (Inl e, tr) \<Rightarrow> (fst (combine_results w q ug False), snd (combine_results w q ug False) @ tr)
      | (Inr c, tr) \<Rightarrow> (c, snd (combine_results w q ug False) @ tr))"
  by (cases ug; cases "fst (search_google w q) = []")
     (simp_all add: combine_results_def initial_composite web_step_composite
        split: prod.splits sum.splits)

lemma combine_results_shape_web:
  "\<exists>g f. fst (combine_results w q ug False) = composite q g [] f \<and> (g = [] \<or> f = [])
      \<and> (ug \<and> fst (search_google w q) = [] \<longrightarrow> g = [] \<and> f = fst (search_duckduckgo w q))
      \<and> (ug \<and> fst (search_google w q) \<noteq> [] \<longrightarrow> g = fst (search_google w q) \<and> f = [])
      \<and> (\<not> ug \<longrightarrow> g = [] \<and> f = [])"
  by (simp add: combine_results_web_only)

lemma combine_results_keeps_web:
  "fst (combine_results w q ug False) = composite q g wk0 f \<Longrightarrow>
     \<exists>wk. fst (combine_results w q ug True) = composite q g wk f"
proof -
  assume a: "fst (combine_results w q ug False) = composite q g wk0 f"
  obtain r tr where s: "wiki_step w q (composite q g wk0 f) = (r, tr)"
    by (cases "wiki_step w q (composite q g wk0 f)")
  from wiki_step_composite(2)[OF s] show ?thesis
    by (cases r) (auto simp: combine_results_with_wiki a s)
qed

lemma combine_results_trace:
  "snd (combine_results w q ug True) = snd (combine_results w q ug False) @ [HttpGet Wikipedia q]"
proof -
  obtain g f where a: "fst (combine_results w q ug False) = composite q g [] f"
    using combine_results_shape_web by blast
  obtain r tr where s: "wiki_step w q (composite q g [] f) = (r, tr)"
    by (cases "wiki_step w q (composite q g [] f)")
  from wiki_step_composite(1)[OF s] show ?thesis
    by (cases r) (auto simp: combine_results_with_wiki a s)
qed

lemma startswith_iff: "startswith s p \<longleftrightarrow> (\<exists>b. s = p @ b)"
  by (induction s p rule: startswith.induct) auto

lemma str_contains_iff: "str_contains s p \<longleftrightarrow> (\<exists>a b. s = a @ p @ b)"
proof (induction s)
  case Nil
  then show ?case by auto
next
  case (Cons c cs)
  show ?case
  proof
    assume "str_contains (c # cs) p"
    then consider "startswith (c # cs) p" | "str_contains cs p" by auto
    then show "\<exists>a b. c # cs = a @ p @ b"
    proof cases
      case 1
      then obtain b where "c # cs = p @ b" using startswith_iff by blast
      then have "c # cs = [] @ p @ b" by simp
      then show ?thesis by blast
    next
      case 2
      with Cons obtain a b where "cs = a @ p @ b" by blast
      then have "c # cs = (c # a) @ p @ b" by simp
      then show ?thesis by blast
    qed
  next
    assume "\<exists>a b. c # cs = a @ p @ b"
    then obtain a b where ab: "c # cs = a @ p @ b" by blast
    show "str_contains (c # cs) p"
    proof (cases a)
      case Nil
      with ab have "startswith (c # cs) p" using startswith_iff by auto
      then show ?thesis by simp
    next
      case (Cons x xs)
      with ab have "cs = xs @ p @ b" by simp
      with Cons.IH have "str_contains cs p" by blast
      then show ?thesis by simp
    qed
  qed
qed

lemma extract_loop_acc: "extract_loop bs acc = acc @ extract_loop bs []"
proof (induction bs arbitrary: acc)
  case Nil
  then show ?case by simp
next
  case (Cons b bs)
  show ?case
  proof (cases "extract_block b")
    case (Inl e)
    with Cons[of acc] show ?thesis by simp
  next
    case (Inr r)
    show ?thesis
    proof (cases r)
      case None
      with Inr Cons[of acc] show ?thesis by simp
    next
      case (Some v)
      with Inr Cons[of "acc @ [v]"] Cons[of "[v]"] show ?thesis by simp
    qed
  qed
qed

lemma extract_loop_append: "extract_loop (bs1 @ bs2) acc = extract_loop bs2 (extract_loop bs1 acc)"
  by (induction bs1 arbitrary: acc) (auto split: sum.splits option.splits)

lemma search_google_offline: "search_google offline ''cats'' = ([], [Sleep, HttpGet Google ''cats''])"
  by (simp add: search_google_def search_google_try_def offline_def)

lemma extract_good_block:
  "extract_block good_block =
     Inr (Some (JDict [(''title'', JStr ''Cats''), (''url'', JStr ''https://cats.example/''),
                       (''snippet'', JStr ''All about cats''), (''source'', JStr ''google'')]))"
  by (simp add: extract_block_def good_block_def strip_def py_isspace_def)

lemma extract_untitled_block:
  "extract_block untitled_block = Inl (AttributeError ''NoneType object has no attribute text'')"
  by (simp add: extract_block_def untitled_block_def)

lemma not_blocked_results: "\<not> blocked ''<html>results</html>''"
  by (simp add: blocked_def block_indicators_def)

lemma search_google_scraped:
  "fst (search_google scraped_world ''cats'') =
     [JDict [(''title'', JStr ''Cats''), (''url'', JStr ''https://cats.example/''),
             (''snippet'', JStr ''All about cats''), (''source'', JStr ''google'')],
      JDict [(''title'', JStr ''Cats''), (''url'', JStr ''https://cats.example/''),
             (''snippet'', JStr ''All about cats''), (''source'', JStr ''google'')]]"
  by (simp add: search_google_def search_google_try_def scraped_world_def offline_def
      not_blocked_results extract_good_block extract_untitled_block)

lemma generate_answer_composite:
  "generate_answer w q (composite q' g wk f) =
     (if g = [] \<and> wk = [] \<and> f = [] then (Inr no_results_message, [])
      else (case ollama_chat w (build_prompt q (dumps (Some 2) (composite q' g wk f))) of
              Inl e \<Rightarrow> Inr (''Error generating answer: '' @ str_of_error e)
            | Inr response \<Rightarrow> Inr (content (message response)),
            [Chat (build_prompt q (dumps (Some 2) (composite q' g wk f)))]))"
  by (auto simp: generate_answer_def composite_def Let_def split: sum.splits)

lemma combine_results_is_composite:
  "\<exists>g wk f. fst (combine_results w q use_google use_wiki) = composite q g wk f"
proof -
  obtain g f where web: "fst (combine_results w q use_google False) = composite q g [] f"
    using combine_results_shape_web by blast
  from combine_results_keeps_web[OF web] web show ?thesis
    by (cases use_wiki) auto
qed

lemma generate_answer_returns:
  "\<exists>answer. fst (generate_answer w q (composite q' g wk f)) = Inr answer"
  by (simp add: generate_answer_composite split: sum.splits)

lemma combine_results_offline:
  "combine_results offline ''cats'' True True =
     (composite ''cats'' [] [] [],
      [Sleep, HttpGet Google ''cats'', HttpGet DuckDuckGo ''cats'', HttpGet Wikipedia ''cats''])"
proof -
  have sd: "search_duckduckgo offline ''cats'' = ([], [HttpGet DuckDuckGo ''cats''])"
    by (simp add: search_duckduckgo_def search_duckduckgo_try_def offline_def)
  have web: "combine_results offline ''cats'' True False =
     (composite ''cats'' [] [] [], [Sleep, HttpGet Google ''cats'', HttpGet DuckDuckGo ''cats''])"
    by (simp add: combine_results_web_only search_google_offline sd)
  have "wiki_step offline ''cats'' (composite ''cats'' [] [] []) =
      (Inr (composite ''cats'' [] [] []), [HttpGet Wikipedia ''cats''])"
    by (simp add: wiki_step_def search_wikipedia_def offline_def)
  with web show ?thesis
    by (simp add: combine_results_with_wiki)
qed

lemma search_google_scraped_wiki_malformed:
  "fst (search_google scraped_wiki_malformed_world ''cats'') =
     [JDict [(''title'', JStr ''Cats''), (''url'', JStr ''https://cats.example/''),
             (''snippet'', JStr ''All about cats''), (''source'', JStr ''google'')],
      JDict [(''title'', JStr ''Cats''), (''url'', JStr ''https://cats.example/''),
             (''snippet'', JStr ''All about cats''), (''source'', JStr ''google'')]]"
  by (simp add: search_google_def search_google_try_def scraped_wiki_malformed_world_def
      scraped_world_def offline_def not_blocked_results extract_good_block extract_untitled_block)

lemma wiki_step_stores:
  assumes "wiki_get w q = Inr (JDict kvs)"
    and "map_of kvs ''query'' = Some qv"
    and "wiki_fields (JDict kvs) = Inr (JDict entry)"
  shows "\<exists>g f. fst (combine_results w q use_google False) = composite q g [] f
           \<and> fst (combine_results w q use_google True) = composite q g entry f"
proof -
  obtain g f where web: "fst (combine_results w q use_google False) = composite q g [] f"
    using combine_results_shape_web by blast
  from assms(1) have sw: "search_wikipedia w q = (JDict kvs, [HttpGet Wikipedia q])"
    by (simp add: search_wikipedia_def)
  from assms(2) have "(''query'', qv) \<in> set kvs"
    by (simp add: map_of_SomeD)
  then have inq: "''query'' \<in> fst ` set kvs"
    by force
  from sw inq assms(3) have "wiki_step w q (composite q g [] f) =
      (Inr (composite q g entry f), [HttpGet Wikipedia q])"
    by (simp add: wiki_step_def set_source_wikipedia)
  with web have "fst (combine_results w q use_google True) = composite q g entry f"
    by (simp add: combine_results_with_wiki)
  with web show ?thesis by blast
qed

lemma wiki_step_raises:
  assumes "wiki_get w q = Inr (JDict kvs)"
    and "map_of kvs ''query'' = Some qv"
    and "wiki_fields (JDict kvs) = Inl e"
  shows "fst (combine_results w q use_google True) = fst (combine_results w q use_google False)"
proof -
  obtain g f where web: "fst (combine_results w q use_google False) = composite q g [] f"
    using combine_results_shape_web by blast
  from assms(1) have sw: "search_wikipedia w q = (JDict kvs, [HttpGet Wikipedia q])"
    by (simp add: search_wikipedia_def)
  from assms(2) have "(''query'', qv) \<in> set kvs"
    by (simp add: map_of_SomeD)
  then have inq: "''query'' \<in> fst ` set kvs"
    by force
  from sw inq assms(3) have "wiki_step w q (composite q g [] f) = (Inl e, [HttpGet Wikipedia q])"
    by (simp add: wiki_step_def)
  with web show ?thesis
    by (simp add: combine_results_with_wiki)
qed

lemma chat_after_store:
  assumes "fst (combine_results w q use_google True) = composite q g (kv # entry) f"
  shows "snd (generate_answer w q (fst (combine_results w q use_google True)))
           = [Chat (build_prompt q (dumps (Some 2) (fst (combine_results w q use_google True))))]"
  by (simp add: assms generate_answer_composite)

lemma py_get_not_dict: "\<forall>info. x \<noteq> JDict info \<Longrightarrow> \<exists>e. py_get x k d = Inl e"
  by (cases x) simp_all

lemma wiki_get_suggestion_world:
  "wiki_get wiki_suggestion_world ''catz'' =
     Inr (JDict [(''batchcomplete'', JStr []),
        (''query'', JDict [(''searchinfo'', JDict [(''totalhits'', JInt 0),
                                                   (''suggestion'', JStr ''cats'')]),
                           (''search'', JList [])])])"
  by (simp add: wiki_suggestion_world_def offline_def)

lemma wiki_get_null_info_world:
  "wiki_get wiki_null_info_world ''cats'' =
     Inr (JDict [(''query'', JDict [(''searchinfo'', JNull), (''search'', JList [])])])"
  by (simp add: wiki_null_info_world_def offline_def)

lemma combine_results_suggestion_world:
  "fst (combine_results wiki_suggestion_world ''catz'' False True) =
     composite ''catz'' [] [(''results'', JList []), (''suggestion'', JStr ''cats'')] []"
proof -
  have wf: "wiki_fields (JDict [(''batchcomplete'', JStr []),
        (''query'', JDict [(''searchinfo'', JDict [(''totalhits'', JInt 0),
                                                   (''suggestion'', JStr ''cats'')]),
                           (''search'', JList [])])])
      = Inr (JDict [(''results'', JList []), (''suggestion'', JStr ''cats'')])"
    by (simp add: wiki_fields_def)
  have q: "map_of [(''batchcomplete'', JStr []),
        (''query'', JDict [(''searchinfo'', JDict [(''totalhits'', JInt 0),
                                                   (''suggestion'', JStr ''cats'')]),
                           (''search'', JList [])])] ''query''
      = Some (JDict [(''searchinfo'', JDict [(''totalhits'', JInt 0), (''suggestion'', JStr ''cats'')]),
                     (''search'', JList [])])"
    by simp
  from wiki_step_stores[OF wiki_get_suggestion_world q wf, of False]
  show ?thesis
    by (auto simp: combine_results_web_only composite_def)
qed

lemma combine_results_null_info_world:
  "fst (combine_results wiki_null_info_world ''cats'' False True) = composite ''cats'' [] [] []"
proof -
  have wf: "wiki_fields (JDict [(''query'', JDict [(''searchinfo'', JNull), (''search'', JList [])])])
      = Inl (AttributeError ''object has no attribute get'')"
    by (simp add: wiki_fields_def)
  have q: "map_of [(''query'', JDict [(''searchinfo'', JNull), (''search'', JList [])])] ''query''
      = Some (JDict [(''searchinfo'', JNull), (''search'', JList [])])"
    by simp
  from wiki_step_raises[OF wiki_get_null_info_world q wf, of False]
  show ?thesis
    by (simp add: combine_results_web_only)
qed

subsection \<open>The reader inverts the encoder\<close>

lemma digit_char: "d < 10 \<Longrightarrow> is_digit (char_of (48 + d)) \<and> digit_val (char_of (48 + d)) = d"
  by (simp add: is_digit_def digit_val_def)

lemma str_of_nat_digits: "list_all is_digit (str_of_nat n)"
proof (induction n rule: str_of_nat.induct)
  case (1 n)
  show ?case
  proof (cases "n < 10")
    case True
    then show ?thesis by (subst str_of_nat.simps) (simp add: digit_char)
  next
    case False
    have "n mod 10 < 10" by simp
    with False 1 show ?thesis
      by (subst str_of_nat.simps) (simp add: digit_char)
  qed
qed

lemma str_of_nat_nonempty: "str_of_nat n \<noteq> []"
  by (subst str_of_nat.simps) simp

lemma str_of_nat_value: "foldl (\<lambda>a c. 10 * a + digit_val c) 0 (str_of_nat n) = n"
proof (induction n rule: str_of_nat.induct)
  case (1 n)
  show ?case
  proof (cases "n < 10")
    case True
    then show ?thesis by (subst str_of_nat.simps) (simp add: digit_char)
  next
    case False
    have "n mod 10 < 10" by simp
    with False 1 show ?thesis
      by (subst str_of_nat.simps) (simp add: digit_char)
  qed
qed

lemma str_of_nat_leading: "0 < n \<Longrightarrow> hd (str_of_nat n) \<noteq> CHR ''0''"
proof (induction n rule: str_of_nat.induct)
  case (1 n)
  show ?case
  proof (cases "n < 10")
    case True
    with 1(2) have "(of_char (char_of (48 + n)) :: nat) \<noteq> of_char (CHR ''0'')"
      by simp
    then have "char_of (48 + n) \<noteq> CHR ''0''"
      by metis
    with True show ?thesis by (subst str_of_nat.simps) simp
  next
    case False
    then have "0 < n div 10" by simp
    with False 1 show ?thesis
      by (subst str_of_nat.simps) (simp add: str_of_nat_nonempty)
  qed
qed

lemma str_of_nat_single: "length (str_of_nat n) > 1 \<Longrightarrow> 0 < n"
  by (cases "n = 0") (simp_all add: str_of_nat.simps[of 0])

lemma takeWhile_all: "list_all P xs \<Longrightarrow> ys = [] \<or> \<not> P (hd ys) \<Longrightarrow> takeWhile P (xs @ ys) = xs"
  by (induction xs) (auto simp: takeWhile_eq_Nil_iff)

lemma dropWhile_all: "list_all P xs \<Longrightarrow> ys = [] \<or> \<not> P (hd ys) \<Longrightarrow> dropWhile P (xs @ ys) = ys"
  by (induction xs) (auto simp: dropWhile_eq_self_iff)

lemma follows_value_not_digit: "follows_value rest \<Longrightarrow> rest = [] \<or> \<not> is_digit (hd rest)"
  by (auto simp: follows_value_def is_digit_def)

lemma follows_value_not_frac: "follows_value rest \<Longrightarrow> rest \<noteq> [] \<Longrightarrow> hd rest \<notin> set ''.eE''"
  by (auto simp: follows_value_def)

lemma parse_nat_str_of_nat:
  assumes "follows_value rest"
  shows "parse_nat (str_of_nat n @ rest) = Some (n, rest)"
proof -
  have tw: "takeWhile is_digit (str_of_nat n @ rest) = str_of_nat n"
    using takeWhile_all[OF str_of_nat_digits follows_value_not_digit[OF assms]] .
  have dw: "dropWhile is_digit (str_of_nat n @ rest) = rest"
    using dropWhile_all[OF str_of_nat_digits follows_value_not_digit[OF assms]] .
  have lead: "\<not> (hd (str_of_nat n) = CHR ''0'' \<and> 1 < length (str_of_nat n))"
    using str_of_nat_leading[of n] str_of_nat_single[of n] by blast
  have frac: "\<not> (rest \<noteq> [] \<and> hd rest \<in> set ''.eE'')"
    using follows_value_not_frac[OF assms] by blast
  show ?thesis
    unfolding parse_nat_def Let_def tw dw
    using lead frac by (simp add: str_of_nat_nonempty str_of_nat_value)
qed

lemma str_of_nat_hd_digit: "is_digit (hd (str_of_nat n))"
  using str_of_nat_digits[of n] str_of_nat_nonempty[of n]
  by (cases "str_of_nat n") simp_all

lemma is_digit_not_minus: "is_digit c \<Longrightarrow> c \<noteq> CHR ''-''"
  by (auto simp: is_digit_def)

lemma parse_int_str_of_int:
  assumes "follows_value rest"
  shows "parse_int (str_of_int i @ rest) = Some (JInt i, rest)"
proof (cases "i < 0")
  case True
  then show ?thesis
    by (simp add: parse_int_def str_of_int_def parse_nat_str_of_nat[OF assms])
next
  case False
  obtain c cs where cs: "str_of_nat (nat i) = c # cs"
    using str_of_nat_nonempty[of "nat i"] by (cases "str_of_nat (nat i)") auto
  with str_of_nat_hd_digit[of "nat i"] have "c \<noteq> CHR ''-''"
    using is_digit_not_minus by simp
  moreover have "parse_nat (c # cs @ rest) = Some (nat i, rest)"
    using parse_nat_str_of_nat[OF assms, of "nat i"] cs by simp
  ultimately show ?thesis
    using False by (simp add: parse_int_def str_of_int_def cs)
qed

lemma hex_val_hex_digit: "d < 16 \<Longrightarrow> hex_val (hex_digit d) = Some d"
  by (simp add: hex_val_def hex_digit_def Let_def)

lemma hex_val_zero: "hex_val (CHR ''0'') = Some 0"
  by (simp add: hex_val_def)

lemma hex4_val_escape:
  "hex4_val (CHR ''0'') (CHR ''0'') (hex_digit ((of_char c :: nat) div 16))
     (hex_digit ((of_char c :: nat) mod 16)) = Some (of_char c)"
proof -
  define n where "n = (of_char c :: nat)"
  have "n < 256" by (simp add: n_def)
  then have "n div 16 < 16" by arith
  then have "(of_char c :: nat) div 16 < 16" by (simp add: n_def)
  then show ?thesis
    by (simp add: hex4_val_def hex_val_zero hex_val_hex_digit)
qed

lemma parse_chars_escape_char:
  "parse_chars (escape_char c @ t) = map_option (\<lambda>(s, r). (c # s, r)) (parse_chars t)"
proof -
  consider (quote) "c = CHR 0x22" | (backslash) "c = CHR 0x5C" | (nl) "c = CHR 0x0A"
    | (cr) "c = CHR 0x0D" | (tab) "c = CHR 0x09" | (bs) "c = CHR 0x08" | (ff) "c = CHR 0x0C"
    | (plain) "c \<noteq> CHR 0x22" "c \<noteq> CHR 0x5C" "32 \<le> (of_char c :: nat)" "(of_char c :: nat) \<le> 126"
    | (other) "c \<noteq> CHR 0x22" "c \<noteq> CHR 0x5C" "c \<noteq> CHR 0x0A" "c \<noteq> CHR 0x0D" "c \<noteq> CHR 0x09"
        "c \<noteq> CHR 0x08" "c \<noteq> CHR 0x0C" "\<not> (32 \<le> (of_char c :: nat) \<and> (of_char c :: nat) \<le> 126)"
    by blast
  then show ?thesis
  proof cases
    case quote
    then show ?thesis by (simp add: escape_char_def unescape_def)
  next
    case backslash
    then show ?thesis by (simp add: escape_char_def unescape_def)
  next
    case nl
    then show ?thesis by (simp add: escape_char_def unescape_def)
  next
    case cr
    then show ?thesis by (simp add: escape_char_def unescape_def)
  next
    case tab
    then show ?thesis by (simp add: escape_char_def unescape_def)
  next
    case bs
    then show ?thesis by (simp add: escape_char_def unescape_def)
  next
    case ff
    then show ?thesis by (simp add: escape_char_def unescape_def)
  next
    case plain
    then have "escape_char c = [c]"
      by (auto simp: escape_char_def)
    with plain show ?thesis by simp
  next
    case other
    then have "escape_char c = [CHR 0x5C, CHR ''u'', CHR ''0'', CHR ''0'',
            hex_digit ((of_char c :: nat) div 16), hex_digit ((of_char c :: nat) mod 16)]"
      by (simp add: escape_char_def)
    then show ?thesis
      by (simp add: hex4_val_escape)
  qed
qed

lemma parse_chars_escaped:
  "parse_chars (concat (map escape_char s) @ CHR 0x22 # rest) = Some (s, rest)"
proof (induction s)
  case Nil
  show ?case by simp
next
  case (Cons c s)
  then show ?case
    by (simp add: parse_chars_escape_char del: parse_chars.simps(2))
qed

lemma parse_chars_encode_str:
  "encode_str s @ rest = CHR 0x22 # concat (map escape_char s) @ CHR 0x22 # rest"
  by (simp add: encode_str_def)

lemma is_digit_value_start: "is_digit c \<Longrightarrow> value_start (c # cs)"
  by (auto simp: value_start_def is_digit_def is_ws_def)

lemma value_start_append: "value_start s \<Longrightarrow> value_start (s @ t)"
  by (cases s) (simp_all add: value_start_def)

lemma value_start_str_of_int: "value_start (str_of_int i)"
proof (cases "i < 0")
  case True
  then show ?thesis by (simp add: str_of_int_def value_start_def is_ws_def)
next
  case False
  obtain c cs where cs: "str_of_nat (nat i) = c # cs"
    using str_of_nat_nonempty[of "nat i"] by (cases "str_of_nat (nat i)") auto
  with str_of_nat_hd_digit[of "nat i"] have "is_digit c" by simp
  with False cs show ?thesis by (simp add: str_of_int_def is_digit_value_start)
qed

lemma value_start_encode_str: "value_start (encode_str s)"
  by (simp add: encode_str_def value_start_def is_ws_def)

lemma value_start_encode: "value_start (encode ind lvl v)"
  by (cases v) (simp_all add: value_start_str_of_int value_start_encode_str,
      simp_all add: value_start_def is_ws_def)

lemma ws_newline_indent: "list_all is_ws (newline_indent ind lvl)"
  by (cases ind) (simp_all add: is_ws_def list_all_iff)

lemma item_separator_shape: "\<exists>w. item_separator ind lvl = CHR '','' # w \<and> list_all is_ws w"
  by (cases ind) (simp_all add: is_ws_def list_all_iff)

lemma skip_ws_append: "list_all is_ws w \<Longrightarrow> s = [] \<or> \<not> is_ws (hd s) \<Longrightarrow> skip_ws (w @ s) = s"
  unfolding skip_ws_def by (rule dropWhile_all)

lemma skip_ws_value_start: "list_all is_ws w \<Longrightarrow> value_start s \<Longrightarrow> skip_ws (w @ s) = s"
  by (rule skip_ws_append) (simp_all add: value_start_def)

lemma skip_ws_close: "list_all is_ws w \<Longrightarrow> \<not> is_ws c \<Longrightarrow> skip_ws (w @ c # s) = c # s"
  by (rule skip_ws_append) simp_all

lemma follows_value_simps:
  "follows_value (CHR '','' # s)" "follows_value (CHR '']'' # s)" "follows_value (CHR ''}'' # s)"
  "follows_value []"
  by (simp_all add: follows_value_def)

lemma follows_value_ws: "list_all is_ws (newline_indent ind lvl) \<Longrightarrow>
   follows_value (newline_indent ind lvl @ CHR '']'' # s) \<and> follows_value (newline_indent ind lvl @ CHR ''}'' # s)"
  by (cases ind) (simp_all add: follows_value_def)

lemma value_start_join: "value_start x \<Longrightarrow> value_start (join sep (x # xs) @ t)"
  by (cases xs) (simp_all add: value_start_append)

lemma parse_elems_join:
  assumes elems: "\<And>x n rest. x \<in> set xs \<Longrightarrow> length (enc x) \<le> n \<Longrightarrow> follows_value rest
                    \<Longrightarrow> parse_value n (enc x @ rest) = Some (x, rest)"
    and start: "\<And>x. x \<in> set xs \<Longrightarrow> value_start (enc x)"
    and ws: "list_all is_ws w" "list_all is_ws w'"
    and fol: "follows_value (w' @ CHR '']'' # rest)"
    and ne: "xs \<noteq> []"
    and fuel: "length (join (CHR '','' # w) (map enc xs)) < m"
  shows "parse_elems m (join (CHR '','' # w) (map enc xs) @ w' @ CHR '']'' # rest) = Some (xs, rest)"
  using elems start ne fuel
proof (induction xs arbitrary: m)
  case Nil
  then show ?case by simp
next
  case (Cons x xs)
  obtain m' where m: "m = Suc m'"
    using Cons.prems(4) by (cases m) auto
  have sx: "value_start (enc x)"
    using Cons.prems(2) by simp
  show ?case
  proof (cases xs)
    case Nil
    have "length (enc x) \<le> m'"
      using Cons.prems(4) m Nil by simp
    then have pv: "parse_value m' (enc x @ w' @ CHR '']'' # rest) = Some (x, w' @ CHR '']'' # rest)"
      using Cons.prems(1)[of x m'] fol by simp
    have sk: "skip_ws (w' @ CHR '']'' # rest) = CHR '']'' # rest"
      by (rule skip_ws_close[OF ws(2)]) (simp add: is_ws_def)
    show ?thesis
      using Nil m pv sk by simp
  next
    case (Cons y ys)
    define tail where "tail = join (CHR '','' # w) (map enc (y # ys)) @ w' @ CHR '']'' # rest"
    have len: "length (join (CHR '','' # w) (map enc (x # y # ys)))
                 = length (enc x) + Suc (length w) + length (join (CHR '','' # w) (map enc (y # ys)))"
      by simp
    have nex: "0 < length (enc x)"
      using sx by (simp add: value_start_def)
    have "length (enc x) \<le> m'"
      using Cons.prems(4) m Cons len by simp
    then have pv: "parse_value m' (enc x @ CHR '','' # w @ tail) = Some (x, CHR '','' # w @ tail)"
      using Cons.prems(1)[of x m'] by (simp add: follows_value_simps)
    have sk1: "skip_ws (CHR '','' # w @ tail) = CHR '','' # w @ tail"
      using skip_ws_close[of "[]"] by (simp add: is_ws_def)
    have "value_start tail"
      unfolding tail_def using Cons.prems(2)[of y] Cons
      by (simp add: value_start_join del: join.simps)
    then have sk2: "skip_ws (w @ tail) = tail"
      by (rule skip_ws_value_start[OF ws(1)])
    have "length (join (CHR '','' # w) (map enc (y # ys))) < m'"
      using Cons.prems(4) m Cons len nex by simp
    then have ih: "parse_elems m' tail = Some (y # ys, rest)"
      unfolding tail_def using Cons.IH[of m'] Cons.prems(1,2) Cons by simp
    have whole: "join (CHR '','' # w) (map enc (x # y # ys)) @ w' @ CHR '']'' # rest
                 = enc x @ CHR '','' # w @ tail"
      by (simp add: tail_def)
    show ?thesis
      unfolding Cons whole m using pv sk1 sk2 ih by simp
  qed
qed

lemma value_start_member: "value_start (encode_str k @ t)"
  by (simp add: encode_str_def value_start_def is_ws_def)

lemma parse_members_join:
  assumes elems: "\<And>kv n rest. kv \<in> set kvs \<Longrightarrow> length (enc (snd kv)) \<le> n \<Longrightarrow> follows_value rest
                    \<Longrightarrow> parse_value n (enc (snd kv) @ rest) = Some (snd kv, rest)"
    and start: "\<And>kv. kv \<in> set kvs \<Longrightarrow> value_start (enc (snd kv))"
    and ws: "list_all is_ws w" "list_all is_ws w'"
    and fol: "follows_value (w' @ CHR ''}'' # rest)"
    and ne: "kvs \<noteq> []"
    and fuel: "length (join (CHR '','' # w) (map (\<lambda>kv. encode_str (fst kv) @ '': '' @ enc (snd kv)) kvs)) < m"
  shows "parse_members m (join (CHR '','' # w) (map (\<lambda>kv. encode_str (fst kv) @ '': '' @ enc (snd kv)) kvs)
                            @ w' @ CHR ''}'' # rest) = Some (kvs, rest)"
  using elems start ne fuel
proof (induction kvs arbitrary: m)
  case Nil
  then show ?case by simp
next
  case (Cons kv kvs)
  obtain k v where kv: "kv = (k, v)"
    by (cases kv)
  obtain m' where m: "m = Suc m'"
    using Cons.prems(4) by (cases m) auto
  have sv: "value_start (enc v)"
    using Cons.prems(2)[of kv] kv by simp
  have key: "\<And>t. parse_chars (concat (map escape_char k) @ CHR 0x22 # t) = Some (k, t)"
    by (rule parse_chars_escaped)
  have colon: "\<And>t. skip_ws (CHR '':'' # t) = CHR '':'' # t"
    using skip_ws_close[of "[]"] by (simp add: is_ws_def)
  have space: "\<And>t. skip_ws (CHR '' '' # enc v @ t) = enc v @ t"
    using skip_ws_value_start[of "'' ''" "enc v @ t" for t] sv
    by (simp add: is_ws_def value_start_append)
  show ?case
  proof (cases kvs)
    case Nil
    have "length (enc v) \<le> m'"
      using Cons.prems(4) m Nil kv by simp
    then have pv: "parse_value m' (enc v @ w' @ CHR ''}'' # rest) = Some (v, w' @ CHR ''}'' # rest)"
      using Cons.prems(1)[of kv m'] fol kv by simp
    have sk: "skip_ws (w' @ CHR ''}'' # rest) = CHR ''}'' # rest"
      by (rule skip_ws_close[OF ws(2)]) (simp add: is_ws_def)
    show ?thesis
      using Nil m kv key colon space pv sk by (simp add: encode_str_def)
  next
    case (Cons kv2 kvs2)
    define member where "member = (\<lambda>kv. encode_str (fst kv) @ '': '' @ enc (snd kv))"
    define tail where "tail = join (CHR '','' # w) (map member (kv2 # kvs2)) @ w' @ CHR ''}'' # rest"
    have len: "length (join (CHR '','' # w) (map member (kv # kv2 # kvs2)))
                 = length (member kv) + Suc (length w) + length (join (CHR '','' # w) (map member (kv2 # kvs2)))"
      by simp
    have lm: "length (member kv) = length (encode_str k) + 2 + length (enc v)"
      by (simp add: member_def kv)
    have "length (enc v) \<le> m'"
      using Cons.prems(4) m Cons len lm by (simp add: member_def)
    then have pv: "parse_value m' (enc v @ CHR '','' # w @ tail) = Some (v, CHR '','' # w @ tail)"
      using Cons.prems(1)[of kv m'] kv by (simp add: follows_value_simps)
    have sk1: "skip_ws (CHR '','' # w @ tail) = CHR '','' # w @ tail"
      using skip_ws_close[of "[]"] by (simp add: is_ws_def)
    have "value_start tail"
      unfolding tail_def member_def
      using value_start_join[OF value_start_member, of _ "fst kv2" "'': '' @ enc (snd kv2)"]
      by (simp del: join.simps)
    then have sk2: "skip_ws (w @ tail) = tail"
      by (rule skip_ws_value_start[OF ws(1)])
    have "length (join (CHR '','' # w) (map member (kv2 # kvs2))) < m'"
      using Cons.prems(4) m Cons len lm by (simp add: member_def)
    then have ih: "parse_members m' tail = Some (kv2 # kvs2, rest)"
      unfolding tail_def member_def using Cons.IH[of m'] Cons.prems(1,2) Cons by simp
    obtain c cs where tl: "tail = c # cs"
      using \<open>value_start tail\<close> by (cases tail) (auto simp: value_start_def)
    have whole: "join (CHR '','' # w) (map member (kv # kv2 # kvs2)) @ w' @ CHR ''}'' # rest
                 = CHR 0x22 # concat (map escape_char k) @ CHR 0x22 # CHR '':'' # CHR '' '' # enc v @ CHR '','' # w @ tail"
      by (simp add: tail_def member_def kv encode_str_def)
    show ?thesis
      unfolding Cons member_def[symmetric] whole m
      using key colon space pv sk1 sk2 ih kv by simp
  qed
qed

lemma str_of_int_start:
  "\<exists>c cs. str_of_int i = c # cs \<and> (c = CHR ''-'' \<or> is_digit c)"
proof (cases "i < 0")
  case True
  then show ?thesis by (simp add: str_of_int_def)
next
  case False
  obtain c cs where cs: "str_of_nat (nat i) = c # cs"
    using str_of_nat_nonempty[of "nat i"] by (cases "str_of_nat (nat i)") auto
  with str_of_nat_hd_digit[of "nat i"] have "is_digit c" by simp
  with False cs show ?thesis by (simp add: str_of_int_def)
qed

lemma parse_value_number:
  assumes "c = CHR ''-'' \<or> is_digit c"
  shows "parse_value (Suc n) (c # cs) = parse_int (c # cs)"
proof -
  have "c \<noteq> CHR ''n'' \<and> c \<noteq> CHR ''t'' \<and> c \<noteq> CHR ''f'' \<and> c \<noteq> CHR 0x22
        \<and> c \<noteq> CHR ''['' \<and> c \<noteq> CHR ''{''"
    using assms by (auto simp: is_digit_def)
  then show ?thesis by simp
qed

lemma parse_value_atoms:
  "parse_value (Suc n) (''null'' @ rest) = Some (JNull, rest)"
  "parse_value (Suc n) (''true'' @ rest) = Some (JBool True, rest)"
  "parse_value (Suc n) (''false'' @ rest) = Some (JBool False, rest)"
  "parse_value (Suc n) (''[]'' @ rest) = Some (JList [], rest)"
  "parse_value (Suc n) (''{}'' @ rest) = Some (JDict [], rest)"
  by (simp_all add: skip_ws_def is_ws_def)

lemma parse_value_int:
  assumes "follows_value rest"
  shows "parse_value (Suc n) (str_of_int i @ rest) = Some (JInt i, rest)"
proof -
  obtain c cs where cs: "str_of_int i = c # cs" "c = CHR ''-'' \<or> is_digit c"
    using str_of_int_start by blast
  have "parse_value (Suc n) (c # cs @ rest) = parse_int (c # cs @ rest)"
    using cs(2) by (rule parse_value_number)
  also have "\<dots> = Some (JInt i, rest)"
    using parse_int_str_of_int[OF assms, of i] cs(1) by simp
  finally show ?thesis
    using cs(1) by simp
qed

lemma parse_value_str: "parse_value (Suc n) (encode_str s @ rest) = Some (JStr s, rest)"
  by (simp add: encode_str_def parse_chars_escaped)

lemma parse_value_open_list:
  assumes "list_all is_ws a" and "value_start t" and "parse_elems n t = Some (xs, rest)"
  shows "parse_value (Suc n) (CHR ''['' # a @ t) = Some (JList xs, rest)"
proof -
  obtain d ds where dds: "t = d # ds" "d \<noteq> CHR '']''"
    using assms(2) by (cases t) (auto simp: value_start_def)
  have "skip_ws (a @ t) = d # ds"
    using skip_ws_value_start[OF assms(1,2)] dds(1) by simp
  then show ?thesis
    using assms(3) dds by simp
qed

lemma parse_value_open_dict:
  assumes "list_all is_ws a" and "value_start t" and "parse_members n t = Some (kvs, rest)"
  shows "parse_value (Suc n) (CHR ''{'' # a @ t) = Some (JDict kvs, rest)"
proof -
  obtain d ds where dds: "t = d # ds" "d \<noteq> CHR ''}''"
    using assms(2) by (cases t) (auto simp: value_start_def)
  have "skip_ws (a @ t) = d # ds"
    using skip_ws_value_start[OF assms(1,2)] dds(1) by simp
  then show ?thesis
    using assms(3) dds by simp
qed

lemma parse_value_encode:
  "length (encode ind lvl v) \<le> n \<Longrightarrow> follows_value rest
     \<Longrightarrow> parse_value n (encode ind lvl v @ rest) = Some (v, rest)"
proof (induction v arbitrary: n lvl rest)
  case JNull
  then obtain n' where "n = Suc n'" by (cases n) auto
  then show ?case using parse_value_atoms(1) by simp
next
  case (JBool b)
  then obtain n' where "n = Suc n'" by (cases n) (auto split: if_splits)
  then show ?case using parse_value_atoms(2,3) by (cases b) simp_all
next
  case (JInt i)
  have "str_of_int i \<noteq> []"
    using str_of_int_start[of i] by auto
  with JInt(1) obtain n' where "n = Suc n'" by (cases n) auto
  then show ?case using parse_value_int[OF JInt(2)] by simp
next
  case (JStr s)
  then obtain n' where "n = Suc n'" by (cases n) (auto simp: encode_str_def)
  then show ?case using parse_value_str by simp
next
  case (JList xs)
  show ?case
  proof (cases "xs = []")
    case True
    with JList(2) obtain n' where "n = Suc n'" by (cases n) auto
    with True show ?thesis using parse_value_atoms(4) by simp
  next
    case False
    obtain w where sep: "item_separator ind (Suc lvl) = CHR '','' # w" "list_all is_ws w"
      using item_separator_shape by blast
    define es where "es = join (CHR '','' # w) (map (encode ind (Suc lvl)) xs)"
    have enc: "encode ind lvl (JList xs) @ rest
        = CHR ''['' # newline_indent ind (Suc lvl) @ (es @ newline_indent ind lvl @ CHR '']'' # rest)"
      using False by (simp add: es_def sep)
    have "length (encode ind lvl (JList xs)) = Suc (Suc (length (newline_indent ind (Suc lvl))
        + length es + length (newline_indent ind lvl)))"
      using False by (simp add: es_def sep)
    with JList(2) obtain n' where n: "n = Suc n'" "length es < n'"
      by (cases n) auto
    obtain x xs' where xs: "xs = x # xs'"
      using False by (cases xs) auto
    have ves: "value_start (es @ newline_indent ind lvl @ CHR '']'' # rest)"
      unfolding es_def xs using value_start_join[OF value_start_encode] by (simp del: join.simps)
    have "parse_elems n' (es @ newline_indent ind lvl @ CHR '']'' # rest) = Some (xs, rest)"
      unfolding es_def
    proof (rule parse_elems_join)
      show "list_all is_ws w" by (rule sep(2))
      show "list_all is_ws (newline_indent ind lvl)" by (rule ws_newline_indent)
      show "follows_value (newline_indent ind lvl @ CHR '']'' # rest)"
        using follows_value_ws[OF ws_newline_indent] by blast
      show "xs \<noteq> []" by (rule False)
      show "length (join (CHR '','' # w) (map (encode ind (Suc lvl)) xs)) < n'"
        using n(2) by (simp add: es_def)
      show "\<And>x. x \<in> set xs \<Longrightarrow> value_start (encode ind (Suc lvl) x)"
        by (rule value_start_encode)
      show "\<And>x n rest. x \<in> set xs \<Longrightarrow> length (encode ind (Suc lvl) x) \<le> n \<Longrightarrow> follows_value rest
              \<Longrightarrow> parse_value n (encode ind (Suc lvl) x @ rest) = Some (x, rest)"
        using JList(1) by blast
    qed
    with ws_newline_indent ves show ?thesis
      unfolding enc n(1) by (rule parse_value_open_list)
  qed
next
  case (JDict kvs)
  show ?case
  proof (cases "kvs = []")
    case True
    with JDict(2) obtain n' where "n = Suc n'" by (cases n) auto
    with True show ?thesis using parse_value_atoms(5) by simp
  next
    case False
    obtain w where sep: "item_separator ind (Suc lvl) = CHR '','' # w" "list_all is_ws w"
      using item_separator_shape by blast
    define es where "es = join (CHR '','' # w)
        (map (\<lambda>kv. encode_str (fst kv) @ '': '' @ encode ind (Suc lvl) (snd kv)) kvs)"
    have enc: "encode ind lvl (JDict kvs) @ rest
        = CHR ''{'' # newline_indent ind (Suc lvl) @ (es @ newline_indent ind lvl @ CHR ''}'' # rest)"
      using False by (simp add: es_def sep)
    have "length (encode ind lvl (JDict kvs)) = Suc (Suc (length (newline_indent ind (Suc lvl))
        + length es + length (newline_indent ind lvl)))"
      using False by (simp add: es_def sep)
    with JDict(2) obtain n' where n: "n = Suc n'" "length es < n'"
      by (cases n) auto
    obtain kv kvs' where kvs: "kvs = kv # kvs'"
      using False by (cases kvs) auto
    have ves: "value_start (es @ newline_indent ind lvl @ CHR ''}'' # rest)"
      unfolding es_def kvs
      using value_start_join[OF value_start_member, of _ "fst kv" "'': '' @ encode ind (Suc lvl) (snd kv)"]
      by (simp del: join.simps)
    have "parse_members n' (es @ newline_indent ind lvl @ CHR ''}'' # rest) = Some (kvs, rest)"
      unfolding es_def
    proof (rule parse_members_join)
      show "list_all is_ws w" by (rule sep(2))
      show "list_all is_ws (newline_indent ind lvl)" by (rule ws_newline_indent)
      show "follows_value (newline_indent ind lvl @ CHR ''}'' # rest)"
        using follows_value_ws[OF ws_newline_indent] by blast
      show "kvs \<noteq> []" by (rule False)
      show "length (join (CHR '','' # w)
              (map (\<lambda>kv. encode_str (fst kv) @ '': '' @ encode ind (Suc lvl) (snd kv)) kvs)) < n'"
        using n(2) by (simp add: es_def)
      show "\<And>kv. kv \<in> set kvs \<Longrightarrow> value_start (encode ind (Suc lvl) (snd kv))"
        by (rule value_start_encode)
      show "\<And>kv n rest. kv \<in> set kvs \<Longrightarrow> length (encode ind (Suc lvl) (snd kv)) \<le> n \<Longrightarrow> follows_value rest
              \<Longrightarrow> parse_value n (encode ind (Suc lvl) (snd kv) @ rest) = Some (snd kv, rest)"
      proof -
        fix kv :: "string \<times> json" and n rest
        assume a: "kv \<in> set kvs" "length (encode ind (Suc lvl) (snd kv)) \<le> n" "follows_value rest"
        have "snd kv \<in> Basic_BNFs.snds kv"
          by (cases kv) simp
        from JDict(1)[OF a(1) this a(2,3)]
        show "parse_value n (encode ind (Suc lvl) (snd kv) @ rest) = Some (snd kv, rest)" .
      qed
    qed
    with ws_newline_indent ves show ?thesis
      unfolding enc n(1) by (rule parse_value_open_dict)
  qed
qed

lemma loads_dumps: "loads (dumps ind v) = Some v"
proof -
  have vs: "value_start (dumps ind v)"
    by (simp add: dumps_def value_start_encode)
  have sk: "skip_ws (dumps ind v) = dumps ind v"
    using skip_ws_value_start[of "[]", OF _ vs] by simp
  have "parse_value (Suc (length (dumps ind v))) (encode ind 0 v @ []) = Some (v, [])"
    by (rule parse_value_encode) (simp_all add: dumps_def follows_value_simps)
  then have pv: "parse_value (Suc (length (dumps ind v))) (dumps ind v) = Some (v, [])"
    by (simp add: dumps_def del: parse_value.simps)
  show ?thesis
    unfolding loads_def sk pv by (simp add: skip_ws_def)
qed

section \<open>The claims\<close>

text \<open>
  Claim C1. \<^verbatim>\<open>full_pipeline\<close> wraps its whole body in \<^verbatim>\<open>try ... except Exception\<close>,
  so it returns a pair of strings in every world, also when every external call fails.
  More precisely the \<^verbatim>\<open>except\<close> branch is never taken: \<^verbatim>\<open>generate_answer\<close> returns an
  answer on every aggregate that \<^verbatim>\<open>combine_results\<close> builds, the second component is
  the encoding of that aggregate with \<^verbatim>\<open>indent=2\<close>, and reading it as JSON gives the
  aggregate back.
\<close>

theorem full_pipeline_returns_pair:
  "\<exists>answer. fst (generate_answer w q (fst (combine_results w q use_google use_wiki))) = Inr answer
      \<and> fst (full_pipeline w q use_google use_wiki)
          = (answer, dumps (Some 2) (fst (combine_results w q use_google use_wiki)))
      \<and> loads (snd (fst (full_pipeline w q use_google use_wiki)))
          = Some (fst (combine_results w q use_google use_wiki))"
proof -
  obtain results tr where cr: "combine_results w q use_google use_wiki = (results, tr)"
    by (cases "combine_results w q use_google use_wiki")
  obtain g wk f where shape: "results = composite q g wk f"
    using combine_results_is_composite[of w q use_google use_wiki] cr by auto
  obtain r tr' where ga: "generate_answer w q results = (r, tr')"
    by (cases "generate_answer w q results")
  obtain answer where ans: "r = Inr answer"
    using generate_answer_returns[of w q q g wk f] ga shape by auto
  have fp: "full_pipeline w q use_google use_wiki = ((answer, dumps (Some 2) results), tr @ tr')"
    by (simp add: full_pipeline_def cr ga ans)
  have "loads (dumps (Some 2) results) = Some results"
    by (rule loads_dumps)
  with fp ga ans cr show ?thesis
    by simp
qed

theorem full_pipeline_returns_pair_witness:
  "fst (full_pipeline offline ''cats'' True True)
     = (no_results_message, dumps (Some 2) (composite ''cats'' [] [] []))
   \<and> loads (snd (fst (full_pipeline offline ''cats'' True True))) = Some (composite ''cats'' [] [] [])"
proof -
  have ga: "fst (generate_answer offline ''cats'' (composite ''cats'' [] [] [])) = Inr no_results_message"
    by (simp add: generate_answer_composite)
  from full_pipeline_returns_pair[of offline "''cats''" True True] ga
  show ?thesis
    by (auto simp: combine_results_offline)
qed

text \<open>
  Claim C2, as the code has it. \<^verbatim>\<open>search_duckduckgo\<close> returns the empty list or a
  one-element list whose element has exactly the fields title, url, snippet and
  source = "duckduckgo". It returns the empty list exactly when the request or the
  decoding raises, or the decoded payload is not a mapping. A payload that is a mapping
  with none of Heading, AbstractURL, AbstractText does not give the empty list: each
  missing field defaults to the empty string, and the one record is returned.
\<close>

theorem search_duckduckgo_result:
  "(fst (search_duckduckgo w q) = []
      \<or> (\<exists>t u s. fst (search_duckduckgo w q) =
            [JDict [(''title'', t), (''url'', u), (''snippet'', s),
                    (''source'', JStr ''duckduckgo'')]]))
   \<and> (fst (search_duckduckgo w q) = [] \<longleftrightarrow> (\<forall>kvs. ddg_get w q \<noteq> Inr (JDict kvs)))
   \<and> (ddg_get w q = Inr (JDict kvs) \<and> map_of kvs ''Heading'' = None
        \<and> map_of kvs ''AbstractURL'' = None \<and> map_of kvs ''AbstractText'' = None
      \<longrightarrow> fst (search_duckduckgo w q) =
            [JDict [(''title'', JStr []), (''url'', JStr []), (''snippet'', JStr []),
                    (''source'', JStr ''duckduckgo'')]])"
proof (cases "ddg_get w q")
  case (Inl e)
  then show ?thesis by (simp add: search_duckduckgo_def search_duckduckgo_try_def)
next
  case (Inr data)
  then show ?thesis
    by (cases data)
       (simp_all add: search_duckduckgo_def search_duckduckgo_try_def split: option.splits)
qed

theorem search_duckduckgo_result_witness:
  "fst (search_duckduckgo ddg_empty_world ''cats'') =
     [JDict [(''title'', JStr []), (''url'', JStr []), (''snippet'', JStr []),
             (''source'', JStr ''duckduckgo'')]]
   \<and> fst (search_duckduckgo offline ''cats'') = []"
proof -
  have a: "ddg_get ddg_empty_world ''cats'' = Inr (JDict [])"
    by (simp add: ddg_empty_world_def offline_def)
  have b: "\<forall>kvs. ddg_get offline ''cats'' \<noteq> Inr (JDict kvs)"
    by (simp add: offline_def)
  from search_duckduckgo_result[of ddg_empty_world "''cats''" "[]"] a
  have 1: "fst (search_duckduckgo ddg_empty_world ''cats'') =
     [JDict [(''title'', JStr []), (''url'', JStr []), (''snippet'', JStr []),
             (''source'', JStr ''duckduckgo'')]]" by simp
  from search_duckduckgo_result[of offline "''cats''" "[]"] b
  have 2: "fst (search_duckduckgo offline ''cats'') = []" by blast
  from 1 2 show ?thesis by blast
qed

text \<open>
  Claim C2 as stated (the empty list whenever the payload has none of the three fields)
  fails on the empty mapping.
\<close>

theorem search_duckduckgo_empty_payload_counterexample:
  "ddg_get ddg_empty_world ''cats'' = Inr (JDict [])
   \<and> fst (search_duckduckgo ddg_empty_world ''cats'') =
       [JDict [(''title'', JStr []), (''url'', JStr []), (''snippet'', JStr []),
               (''source'', JStr ''duckduckgo'')]]
   \<and> fst (search_duckduckgo ddg_empty_world ''cats'') \<noteq> []"
  by (simp add: ddg_empty_world_def offline_def search_duckduckgo_def search_duckduckgo_try_def)

text \<open>
  Claim C3. With the web-search toggle on: when the primary client returns the empty list,
  the fallback client is called exactly once, its output is stored under
  \<^verbatim>\<open>sources.fallback\<close> and \<^verbatim>\<open>sources.google\<close> stays empty; when the primary client
  returns a non-empty list, the fallback client is not called and the primary output is
  stored under \<^verbatim>\<open>sources.google\<close>. This holds whatever the Wikipedia toggle and reply.
\<close>

theorem combine_results_fallback_chain:
  "(fst (search_google w q) = [] \<longrightarrow>
      fallback_calls (snd (combine_results w q True use_wiki)) = 1
      \<and> source_of (fst (combine_results w q True use_wiki)) ''fallback''
          = Inr (JList (fst (search_duckduckgo w q)))
      \<and> source_of (fst (combine_results w q True use_wiki)) ''google'' = Inr (JList []))
   \<and> (fst (search_google w q) \<noteq> [] \<longrightarrow>
      fallback_calls (snd (combine_results w q True use_wiki)) = 0
      \<and> source_of (fst (combine_results w q True use_wiki)) ''google''
          = Inr (JList (fst (search_google w q))))"
proof -
  have tr0: "fallback_calls [HttpGet Wikipedia q] = 0"
    by (simp add: fallback_calls_def)
  have tr1: "fallback_calls (snd (search_duckduckgo w q)) = 1"
    by (simp add: search_duckduckgo_trace fallback_calls_def)
  show ?thesis
  proof (cases "fst (search_google w q) = []")
    case True
    then have web: "combine_results w q True False =
        (composite q [] [] (fst (search_duckduckgo w q)),
         snd (search_google w q) @ snd (search_duckduckgo w q))"
      by (simp add: combine_results_web_only)
    then have "fst (combine_results w q True False) = composite q [] [] (fst (search_duckduckgo w q))"
      by simp
    from combine_results_keeps_web[OF this] obtain wk where
      "fst (combine_results w q True True) = composite q [] wk (fst (search_duckduckgo w q))"
      by blast
    with web True show ?thesis
      by (cases use_wiki)
         (simp_all add: source_of_composite combine_results_trace fallback_calls_append
            search_google_trace tr0 tr1)
  next
    case False
    then have web: "combine_results w q True False =
        (composite q (fst (search_google w q)) [] [], snd (search_google w q))"
      by (simp add: combine_results_web_only)
    then have "fst (combine_results w q True False) = composite q (fst (search_google w q)) [] []"
      by simp
    from combine_results_keeps_web[OF this] obtain wk where
      "fst (combine_results w q True True) = composite q (fst (search_google w q)) wk []"
      by blast
    with web False show ?thesis
      by (cases use_wiki)
         (simp_all add: source_of_composite combine_results_trace fallback_calls_append
            search_google_trace tr0)
  qed
qed

theorem combine_results_fallback_chain_witness:
  "fallback_calls (snd (combine_results offline ''cats'' True True)) = 1
   \<and> source_of (fst (combine_results offline ''cats'' True True)) ''fallback'' = Inr (JList [])
   \<and> source_of (fst (combine_results offline ''cats'' True True)) ''google'' = Inr (JList [])
   \<and> fallback_calls (snd (combine_results scraped_world ''cats'' True True)) = 0
   \<and> source_of (fst (combine_results scraped_world ''cats'' True True)) ''google''
       = Inr (JList (fst (search_google scraped_world ''cats'')))
   \<and> fst (search_google scraped_world ''cats'') \<noteq> []"
proof -
  have a: "fst (search_google offline ''cats'') = []"
    by (simp add: search_google_offline)
  have b: "fst (search_google scraped_world ''cats'') \<noteq> []"
    by (simp add: search_google_scraped)
  have c: "fst (search_duckduckgo offline ''cats'') = []"
    by (simp add: search_duckduckgo_def search_duckduckgo_try_def offline_def)
  from combine_results_fallback_chain[of offline "''cats''" True] a c
       combine_results_fallback_chain[of scraped_world "''cats''" True] b
  show ?thesis by simp
qed

text \<open>
  Claim C4. For every world, query and pair of toggles the aggregate has the fixed shape,
  and at most one of \<^verbatim>\<open>sources.google\<close> and \<^verbatim>\<open>sources.fallback\<close> is non-empty.
\<close>

theorem combine_results_one_of_two:
  "\<exists>g wk f. fst (combine_results w q use_google use_wiki) = composite q g wk f \<and> (g = [] \<or> f = [])"
proof -
  obtain g f where a: "fst (combine_results w q use_google False) = composite q g [] f" "g = [] \<or> f = []"
    using combine_results_shape_web by blast
  show ?thesis
  proof (cases use_wiki)
    case True
    from combine_results_keeps_web[OF a(1)] obtain wk
      where "fst (combine_results w q use_google True) = composite q g wk f" by blast
    with a(2) True show ?thesis by auto
  next
    case False
    with a show ?thesis by auto
  qed
qed

text \<open>
  Claim C5. With both toggles off no request is made, the three source fields are empty,
  and \<^verbatim>\<open>generate_answer\<close> returns the fixed message without a chat request.
\<close>

theorem both_toggles_off:
  "combine_results w q False False = (composite q [] [] [], [])
   \<and> source_of (fst (combine_results w q False False)) ''google'' = Inr (JList [])
   \<and> source_of (fst (combine_results w q False False)) ''wikipedia'' = Inr (JDict [])
   \<and> source_of (fst (combine_results w q False False)) ''fallback'' = Inr (JList [])
   \<and> generate_answer w q (fst (combine_results w q False False)) = (Inr no_results_message, [])"
  by (simp add: combine_results_web_only source_of_composite)
     (simp add: generate_answer_def composite_def)

text \<open>
  Claim C6. When the body of the search engine's reply contains one of the block-indicator
  phrases, \<^verbatim>\<open>search_google\<close> returns the empty list after the delay and the request
  alone: the page is not parsed and no block is extracted.
\<close>

theorem search_google_blocked:
  assumes "google_get w q = Inr text"
    and "phrase \<in> set block_indicators"
    and "text = a @ phrase @ b"
  shows "search_google w q = ([], [Sleep, HttpGet Google q])
         \<and> (\<forall>t. ParseHtml t \<notin> set (snd (search_google w q)))"
proof -
  from assms(3) have "str_contains text phrase"
    using str_contains_iff by blast
  with assms(2) have "blocked text"
    by (auto simp: blocked_def list_ex_iff)
  with assms(1) show ?thesis
    by (simp add: search_google_def search_google_try_def)
qed

theorem search_google_blocked_witness:
  "search_google captcha_world ''cats'' = ([], [Sleep, HttpGet Google ''cats''])
   \<and> soup_select captcha_world ''<html>Please solve this CAPTCHA</html>'' = Inr [good_block]"
proof -
  have g: "google_get captcha_world ''cats'' = Inr ''<html>Please solve this CAPTCHA</html>''"
    by (simp add: captcha_world_def offline_def)
  have m: "''CAPTCHA'' \<in> set block_indicators"
    by (simp add: block_indicators_def)
  have t: "''<html>Please solve this CAPTCHA</html>'' = ''<html>Please solve this '' @ ''CAPTCHA'' @ ''</html>''"
    by simp
  have s: "soup_select captcha_world ''<html>Please solve this CAPTCHA</html>'' = Inr [good_block]"
    by (simp add: captcha_world_def offline_def)
  from search_google_blocked[OF g m t] s show ?thesis by blast
qed

text \<open>
  Claim C7. When extraction raises on a block of the page (a block without a title element
  is one), that block adds nothing to the output: the result of \<^verbatim>\<open>search_google\<close> is
  what the blocks before it give followed by what the blocks after it give, and no
  exception leaves the function.
\<close>

theorem search_google_skips_failing_block:
  assumes "google_get w q = Inr text"
    and "\<not> blocked text"
    and "soup_select w text = Inr (bs1 @ b # bs2)"
    and "extract_block b = Inl e"
  shows "search_google w q =
           (extract_loop bs1 [] @ extract_loop bs2 [], [Sleep, HttpGet Google q, ParseHtml text])"
proof -
  have "extract_loop (bs1 @ b # bs2) [] = extract_loop bs2 (extract_loop bs1 [])"
    using assms(4) by (simp add: extract_loop_append)
  also have "\<dots> = extract_loop bs1 [] @ extract_loop bs2 []"
    by (rule extract_loop_acc)
  finally show ?thesis
    using assms(1-3) by (simp add: search_google_def search_google_try_def)
qed

theorem search_google_skips_failing_block_witness:
  "heading untitled_block = None
   \<and> search_google scraped_world ''cats'' =
       (extract_loop [good_block] [] @ extract_loop [good_block] [],
        [Sleep, HttpGet Google ''cats'', ParseHtml ''<html>results</html>''])
   \<and> length (fst (search_google scraped_world ''cats'')) = 2"
proof -
  have g: "google_get scraped_world ''cats'' = Inr ''<html>results</html>''"
    by (simp add: scraped_world_def offline_def)
  have s: "soup_select scraped_world ''<html>results</html>'' = Inr ([good_block] @ untitled_block # [good_block])"
    by (simp add: scraped_world_def offline_def)
  have h: "heading untitled_block = None"
    by (simp add: untitled_block_def)
  have l: "length (fst (search_google scraped_world ''cats'')) = 2"
    by (simp add: search_google_scraped)
  from search_google_skips_failing_block[OF g not_blocked_results s extract_untitled_block] h l
  show ?thesis by blast
qed

text \<open>
  Claim C8. When the Wikipedia client's result is a mapping with an \<^verbatim>\<open>error\<close> field and no
  \<^verbatim>\<open>query\<close> field, \<^verbatim>\<open>sources.wikipedia\<close> of the aggregate is the empty mapping.
\<close>

theorem combine_results_wikipedia_error:
  assumes "fst (search_wikipedia w q) = JDict kvs"
    and "''error'' \<in> fst ` set kvs"
    and "''query'' \<notin> fst ` set kvs"
  shows "source_of (fst (combine_results w q use_google use_wiki)) ''wikipedia'' = Inr (JDict [])"
proof -
  obtain g f where web: "fst (combine_results w q use_google False) = composite q g [] f"
    using combine_results_shape_web by blast
  have "search_wikipedia w q = (JDict kvs, [HttpGet Wikipedia q])"
    using assms(1) search_wikipedia_trace[of w q] by (cases "search_wikipedia w q") simp
  with assms(3) have "wiki_step w q (composite q g [] f) = (Inr (composite q g [] f), [HttpGet Wikipedia q])"
    by (simp add: wiki_step_def)
  with web have "fst (combine_results w q use_google True) = composite q g [] f"
    by (simp add: combine_results_with_wiki)
  with web show ?thesis
    by (cases use_wiki) (simp_all add: source_of_composite)
qed

theorem combine_results_wikipedia_error_witness:
  "fst (search_wikipedia offline ''cats'') = JDict [(''error'', JStr ''connection refused'')]
   \<and> source_of (fst (combine_results offline ''cats'' True True)) ''wikipedia'' = Inr (JDict [])"
proof -
  have a: "fst (search_wikipedia offline ''cats'') = JDict [(''error'', JStr ''connection refused'')]"
    by (simp add: search_wikipedia_def offline_def)
  from combine_results_wikipedia_error[OF a, of True True] a show ?thesis by simp
qed

text \<open>
  Claim C9. \<^verbatim>\<open>combine_results\<close> always returns an aggregate of the fixed shape whose
  query field is the input query. When the Wikipedia step raises, the aggregate is the one
  assembled before that step, that is, the one returned with the Wikipedia toggle off; with
  web search on it holds the primary results under \<^verbatim>\<open>sources.google\<close> when there are
  any, and the fallback results under \<^verbatim>\<open>sources.fallback\<close> otherwise.
\<close>

theorem combine_results_always_composite:
  "(\<exists>g wk f. fst (combine_results w q use_google use_wiki) = composite q g wk f)
   \<and> (fst (wiki_step w q (fst (combine_results w q use_google False))) = Inl e \<longrightarrow>
        fst (combine_results w q use_google True) = fst (combine_results w q use_google False))
   \<and> (fst (wiki_step w q (fst (combine_results w q True False))) = Inl e \<longrightarrow>
        fst (combine_results w q True True) =
          (if fst (search_google w q) = []
           then composite q [] [] (fst (search_duckduckgo w q))
           else composite q (fst (search_google w q)) [] []))"
proof (intro conjI)
  obtain g f where web: "fst (combine_results w q use_google False) = composite q g [] f"
    using combine_results_shape_web by blast
  from combine_results_keeps_web[OF web] web
  show "\<exists>g wk f. fst (combine_results w q use_google use_wiki) = composite q g wk f"
    by (cases use_wiki) auto
  show "fst (wiki_step w q (fst (combine_results w q use_google False))) = Inl e \<longrightarrow>
        fst (combine_results w q use_google True) = fst (combine_results w q use_google False)"
    by (auto simp: combine_results_with_wiki split: prod.splits)
  have "fst (combine_results w q True False) =
          (if fst (search_google w q) = []
           then composite q [] [] (fst (search_duckduckgo w q))
           else composite q (fst (search_google w q)) [] [])"
    by (simp add: combine_results_web_only)
  then show "fst (wiki_step w q (fst (combine_results w q True False))) = Inl e \<longrightarrow>
        fst (combine_results w q True True) =
          (if fst (search_google w q) = []
           then composite q [] [] (fst (search_duckduckgo w q))
           else composite q (fst (search_google w q)) [] [])"
    by (auto simp: combine_results_with_wiki split: prod.splits)
qed

theorem combine_results_always_composite_witness:
  "fst (wiki_step scraped_wiki_malformed_world ''cats''
          (fst (combine_results scraped_wiki_malformed_world ''cats'' True False)))
     = Inl (KeyError ''search'')
   \<and> fst (combine_results scraped_wiki_malformed_world ''cats'' True True) =
       composite ''cats''
         [JDict [(''title'', JStr ''Cats''), (''url'', JStr ''https://cats.example/''),
                 (''snippet'', JStr ''All about cats''), (''source'', JStr ''google'')],
          JDict [(''title'', JStr ''Cats''), (''url'', JStr ''https://cats.example/''),
                 (''snippet'', JStr ''All about cats''), (''source'', JStr ''google'')]]
         [] []
   \<and> fst (wiki_step wiki_malformed_world ''cats''
          (fst (combine_results wiki_malformed_world ''cats'' True False)))
     = Inl (KeyError ''search'')
   \<and> fst (combine_results wiki_malformed_world ''cats'' True True) = composite ''cats'' [] [] []"
proof -
  have ws: "search_wikipedia scraped_wiki_malformed_world ''cats'' =
      (JDict [(''query'', JDict [])], [HttpGet Wikipedia ''cats''])"
    by (simp add: search_wikipedia_def scraped_wiki_malformed_world_def scraped_world_def offline_def)
  have a: "fst (wiki_step scraped_wiki_malformed_world ''cats''
          (fst (combine_results scraped_wiki_malformed_world ''cats'' True False)))
     = Inl (KeyError ''search'')"
    by (simp add: wiki_step_def ws wiki_fields_def)
  have web: "fst (combine_results wiki_malformed_world ''cats'' True False) = composite ''cats'' [] [] []"
    by (simp add: combine_results_web_only search_google_def search_google_try_def
        search_duckduckgo_def search_duckduckgo_try_def wiki_malformed_world_def offline_def)
  have b: "fst (wiki_step wiki_malformed_world ''cats'' (fst (combine_results wiki_malformed_world ''cats'' True False)))
     = Inl (KeyError ''search'')"
    by (simp add: web wiki_step_def search_wikipedia_def wiki_fields_def
        wiki_malformed_world_def offline_def)
  from combine_results_always_composite[of scraped_wiki_malformed_world "''cats''" True True "KeyError ''search''"] a
  have "fst (combine_results scraped_wiki_malformed_world ''cats'' True True) =
          (if fst (search_google scraped_wiki_malformed_world ''cats'') = []
           then composite ''cats'' [] [] (fst (search_duckduckgo scraped_wiki_malformed_world ''cats''))
           else composite ''cats'' (fst (search_google scraped_wiki_malformed_world ''cats'')) [] [])"
    by blast
  then have 1: "fst (combine_results scraped_wiki_malformed_world ''cats'' True True) =
       composite ''cats''
         [JDict [(''title'', JStr ''Cats''), (''url'', JStr ''https://cats.example/''),
                 (''snippet'', JStr ''All about cats''), (''source'', JStr ''google'')],
          JDict [(''title'', JStr ''Cats''), (''url'', JStr ''https://cats.example/''),
                 (''snippet'', JStr ''All about cats''), (''source'', JStr ''google'')]]
         [] []"
    by (simp add: search_google_scraped_wiki_malformed)
  from combine_results_always_composite[of wiki_malformed_world "''cats''" True True "KeyError ''search''"] b
  have "fst (combine_results wiki_malformed_world ''cats'' True True)
          = fst (combine_results wiki_malformed_world ''cats'' True False)"
    by blast
  then have 2: "fst (combine_results wiki_malformed_world ''cats'' True True) = composite ''cats'' [] [] []"
    by (simp add: web)
  from a 1 b 2 show ?thesis by blast
qed

text \<open>
  Claim C10, as the code has it. On an aggregate of the fixed shape, \<^verbatim>\<open>generate_answer\<close>
  takes the short-circuit (the fixed message, no chat request) exactly when the two lists
  and the mapping are empty. When Wikipedia answers with an empty hit list, what is stored
  depends on the \<^verbatim>\<open>searchinfo\<close> field: when it is absent, \<^verbatim>\<open>sources.wikipedia\<close> is
  \<^verbatim>\<open>{"results": [], "suggestion": None}\<close>; when it is a mapping, the suggestion stored is
  its \<^verbatim>\<open>suggestion\<close> field, or \<^verbatim>\<open>None\<close> if it has none; in both cases the mapping
  has two keys and the language model is called. When it is present and not a mapping, the
  extraction raises, \<^verbatim>\<open>sources.wikipedia\<close> stays empty, and with web search off the
  short-circuit is taken.
\<close>

theorem zero_evidence_short_circuit:
  "(generate_answer w q (composite q' g wk f) = (Inr no_results_message, [])
      \<longleftrightarrow> g = [] \<and> wk = [] \<and> f = [])
   \<and> (wiki_get w q = Inr (JDict kvs) \<and> map_of kvs ''query'' = Some (JDict qkvs)
        \<and> map_of qkvs ''search'' = Some (JList []) \<and> map_of qkvs ''searchinfo'' = None
      \<longrightarrow> source_of (fst (combine_results w q use_google True)) ''wikipedia''
            = Inr (JDict [(''results'', JList []), (''suggestion'', JNull)])
          \<and> snd (generate_answer w q (fst (combine_results w q use_google True)))
            = [Chat (build_prompt q (dumps (Some 2) (fst (combine_results w q use_google True))))])
   \<and> (wiki_get w q = Inr (JDict kvs) \<and> map_of kvs ''query'' = Some (JDict qkvs)
        \<and> map_of qkvs ''search'' = Some (JList []) \<and> map_of qkvs ''searchinfo'' = Some (JDict info)
      \<longrightarrow> source_of (fst (combine_results w q use_google True)) ''wikipedia''
            = Inr (JDict [(''results'', JList []),
                          (''suggestion'', case map_of info ''suggestion'' of None \<Rightarrow> JNull | Some s \<Rightarrow> s)])
          \<and> snd (generate_answer w q (fst (combine_results w q use_google True)))
            = [Chat (build_prompt q (dumps (Some 2) (fst (combine_results w q use_google True))))])
   \<and> (wiki_get w q = Inr (JDict kvs) \<and> map_of kvs ''query'' = Some (JDict qkvs)
        \<and> map_of qkvs ''search'' = Some (JList []) \<and> map_of qkvs ''searchinfo'' = Some x
        \<and> (\<forall>d. x \<noteq> JDict d)
      \<longrightarrow> source_of (fst (combine_results w q use_google True)) ''wikipedia'' = Inr (JDict [])
          \<and> fst (combine_results w q use_google True) = fst (combine_results w q use_google False)
          \<and> generate_answer w q (fst (combine_results w q False True)) = (Inr no_results_message, []))"
proof (intro conjI impI)
  show "generate_answer w q (composite q' g wk f) = (Inr no_results_message, [])
          \<longleftrightarrow> g = [] \<and> wk = [] \<and> f = []"
    by (simp add: generate_answer_composite)
next
  assume h: "wiki_get w q = Inr (JDict kvs) \<and> map_of kvs ''query'' = Some (JDict qkvs)
        \<and> map_of qkvs ''search'' = Some (JList []) \<and> map_of qkvs ''searchinfo'' = None"
  then have wf: "wiki_fields (JDict kvs) = Inr (JDict [(''results'', JList []), (''suggestion'', JNull)])"
    by (simp add: wiki_fields_def)
  from h wiki_step_stores[OF _ _ wf, of w q "JDict qkvs" use_google]
  obtain g0 f0 where st: "fst (combine_results w q use_google True)
      = composite q g0 [(''results'', JList []), (''suggestion'', JNull)] f0"
    by blast
  show "source_of (fst (combine_results w q use_google True)) ''wikipedia''
            = Inr (JDict [(''results'', JList []), (''suggestion'', JNull)])"
    by (simp add: st source_of_composite)
  show "snd (generate_answer w q (fst (combine_results w q use_google True)))
            = [Chat (build_prompt q (dumps (Some 2) (fst (combine_results w q use_google True))))]"
    using st by (rule chat_after_store)
next
  assume h: "wiki_get w q = Inr (JDict kvs) \<and> map_of kvs ''query'' = Some (JDict qkvs)
        \<and> map_of qkvs ''search'' = Some (JList []) \<and> map_of qkvs ''searchinfo'' = Some (JDict info)"
  define sg where "sg = (case map_of info ''suggestion'' of None \<Rightarrow> JNull | Some s \<Rightarrow> s)"
  from h have wf: "wiki_fields (JDict kvs) = Inr (JDict [(''results'', JList []), (''suggestion'', sg)])"
    by (simp add: wiki_fields_def sg_def split: option.splits)
  from h wiki_step_stores[OF _ _ wf, of w q "JDict qkvs" use_google]
  obtain g0 f0 where st: "fst (combine_results w q use_google True)
      = composite q g0 [(''results'', JList []), (''suggestion'', sg)] f0"
    by blast
  show "source_of (fst (combine_results w q use_google True)) ''wikipedia''
            = Inr (JDict [(''results'', JList []),
                          (''suggestion'', case map_of info ''suggestion'' of None \<Rightarrow> JNull | Some s \<Rightarrow> s)])"
    by (simp add: st source_of_composite sg_def)
  show "snd (generate_answer w q (fst (combine_results w q use_google True)))
            = [Chat (build_prompt q (dumps (Some 2) (fst (combine_results w q use_google True))))]"
    using st by (rule chat_after_store)
next
  assume h: "wiki_get w q = Inr (JDict kvs) \<and> map_of kvs ''query'' = Some (JDict qkvs)
        \<and> map_of qkvs ''search'' = Some (JList []) \<and> map_of qkvs ''searchinfo'' = Some x
        \<and> (\<forall>d. x \<noteq> JDict d)"
  then obtain e where "py_get x ''suggestion'' JNull = Inl e"
    using py_get_not_dict by blast
  with h have wf: "wiki_fields (JDict kvs) = Inl e"
    by (simp add: wiki_fields_def)
  from h have eq: "\<And>ug. fst (combine_results w q ug True) = fst (combine_results w q ug False)"
    using wiki_step_raises[OF _ _ wf, of w q "JDict qkvs"] by blast
  obtain g0 f0 where web: "fst (combine_results w q use_google False) = composite q g0 [] f0"
    using combine_results_shape_web by blast
  show "source_of (fst (combine_results w q use_google True)) ''wikipedia'' = Inr (JDict [])"
    by (simp add: eq web source_of_composite)
  show "fst (combine_results w q use_google True) = fst (combine_results w q use_google False)"
    by (rule eq)
  show "generate_answer w q (fst (combine_results w q False True)) = (Inr no_results_message, [])"
    by (simp add: eq combine_results_web_only generate_answer_composite)
qed

theorem zero_evidence_short_circuit_witness:
  "generate_answer wiki_no_hits_world ''cats'' (composite ''cats'' [] [] []) = (Inr no_results_message, [])
   \<and> source_of (fst (combine_results wiki_no_hits_world ''cats'' False True)) ''wikipedia''
       = Inr (JDict [(''results'', JList []), (''suggestion'', JNull)])
   \<and> snd (generate_answer wiki_no_hits_world ''cats'' (fst (combine_results wiki_no_hits_world ''cats'' False True)))
       = [Chat (build_prompt ''cats'' (dumps (Some 2) (fst (combine_results wiki_no_hits_world ''cats'' False True))))]
   \<and> source_of (fst (combine_results wiki_suggestion_world ''catz'' False True)) ''wikipedia''
       = Inr (JDict [(''results'', JList []), (''suggestion'', JStr ''cats'')])
   \<and> snd (generate_answer wiki_suggestion_world ''catz'' (fst (combine_results wiki_suggestion_world ''catz'' False True)))
       = [Chat (build_prompt ''catz'' (dumps (Some 2) (fst (combine_results wiki_suggestion_world ''catz'' False True))))]
   \<and> source_of (fst (combine_results wiki_null_info_world ''cats'' False True)) ''wikipedia'' = Inr (JDict [])
   \<and> generate_answer wiki_null_info_world ''cats'' (fst (combine_results wiki_null_info_world ''cats'' False True))
       = (Inr no_results_message, [])"
proof -
  have a: "wiki_get wiki_no_hits_world ''cats'' =
      Inr (JDict [(''batchcomplete'', JStr []), (''query'', JDict [(''search'', JList [])])])"
    by (simp add: wiki_no_hits_world_def offline_def)
  have b: "map_of [(''batchcomplete'', JStr []), (''query'', JDict [(''search'', JList [])])] ''query''
      = Some (JDict [(''search'', JList [])])"
    by simp
  have c: "map_of [(''search'', JList [])] ''search'' = Some (JList [])"
    by simp
  have d: "map_of [(''search'', JList [])] ''searchinfo'' = None"
    by simp
  from zero_evidence_short_circuit[of wiki_no_hits_world "''cats''" "''cats''" "[]" "[]" "[]"
      "[(''batchcomplete'', JStr []), (''query'', JDict [(''search'', JList [])])]"
      "[(''search'', JList [])]" False] a b c d
  have 1: "generate_answer wiki_no_hits_world ''cats'' (composite ''cats'' [] [] []) = (Inr no_results_message, [])
   \<and> source_of (fst (combine_results wiki_no_hits_world ''cats'' False True)) ''wikipedia''
       = Inr (JDict [(''results'', JList []), (''suggestion'', JNull)])
   \<and> snd (generate_answer wiki_no_hits_world ''cats'' (fst (combine_results wiki_no_hits_world ''cats'' False True)))
       = [Chat (build_prompt ''cats'' (dumps (Some 2) (fst (combine_results wiki_no_hits_world ''cats'' False True))))]"
    by blast
  define qk where "qk = [(''searchinfo'', JDict [(''totalhits'', JInt 0), (''suggestion'', JStr ''cats'')]),
                         (''search'', JList [])]"
  have sq: "map_of [(''batchcomplete'', JStr []), (''query'', JDict qk)] ''query'' = Some (JDict qk)"
    by simp
  have ss: "map_of qk ''search'' = Some (JList [])"
    by (simp add: qk_def)
  have si: "map_of qk ''searchinfo'' = Some (JDict [(''totalhits'', JInt 0), (''suggestion'', JStr ''cats'')])"
    by (simp add: qk_def)
  have sv: "(case map_of [(''totalhits'', JInt 0), (''suggestion'', JStr ''cats'')] ''suggestion'' of
               None \<Rightarrow> JNull | Some s \<Rightarrow> s) = JStr ''cats''"
    by simp
  have sw: "wiki_get wiki_suggestion_world ''catz'' = Inr (JDict [(''batchcomplete'', JStr []), (''query'', JDict qk)])"
    by (simp add: wiki_get_suggestion_world qk_def)
  from zero_evidence_short_circuit[of wiki_suggestion_world "''catz''" "''catz''" "[]" "[]" "[]"
      "[(''batchcomplete'', JStr []), (''query'', JDict qk)]" qk False
      "[(''totalhits'', JInt 0), (''suggestion'', JStr ''cats'')]"] sw sq ss si
  have "source_of (fst (combine_results wiki_suggestion_world ''catz'' False True)) ''wikipedia''
       = Inr (JDict [(''results'', JList []),
            (''suggestion'', case map_of [(''totalhits'', JInt 0), (''suggestion'', JStr ''cats'')] ''suggestion'' of
               None \<Rightarrow> JNull | Some s \<Rightarrow> s)])
   \<and> snd (generate_answer wiki_suggestion_world ''catz'' (fst (combine_results wiki_suggestion_world ''catz'' False True)))
       = [Chat (build_prompt ''catz'' (dumps (Some 2) (fst (combine_results wiki_suggestion_world ''catz'' False True))))]"
    by blast
  then have 2: "source_of (fst (combine_results wiki_suggestion_world ''catz'' False True)) ''wikipedia''
       = Inr (JDict [(''results'', JList []), (''suggestion'', JStr ''cats'')])
   \<and> snd (generate_answer wiki_suggestion_world ''catz'' (fst (combine_results wiki_suggestion_world ''catz'' False True)))
       = [Chat (build_prompt ''catz'' (dumps (Some 2) (fst (combine_results wiki_suggestion_world ''catz'' False True))))]"
    unfolding sv .
  define nk where "nk = [(''searchinfo'', JNull), (''search'', JList [])]"
  have nq: "map_of [(''query'', JDict nk)] ''query'' = Some (JDict nk)"
    by simp
  have ns: "map_of nk ''search'' = Some (JList [])"
    by (simp add: nk_def)
  have ni: "map_of nk ''searchinfo'' = Some JNull"
    by (simp add: nk_def)
  have nd: "\<forall>d. JNull \<noteq> JDict d"
    by simp
  have nw: "wiki_get wiki_null_info_world ''cats'' = Inr (JDict [(''query'', JDict nk)])"
    by (simp add: wiki_get_null_info_world nk_def)
  from zero_evidence_short_circuit[of wiki_null_info_world "''cats''" "''cats''" "[]" "[]" "[]"
      "[(''query'', JDict nk)]" nk False _ JNull] nw nq ns ni nd
  have 3: "source_of (fst (combine_results wiki_null_info_world ''cats'' False True)) ''wikipedia'' = Inr (JDict [])
   \<and> generate_answer wiki_null_info_world ''cats'' (fst (combine_results wiki_null_info_world ''cats'' False True))
       = (Inr no_results_message, [])"
    by blast
  from 1 2 3 show ?thesis by blast
qed

text \<open>
  Claim C10 as stated (an empty hit list always stores
  \<^verbatim>\<open>{"results": [], "suggestion": None}\<close> and always leads to a call of the language
  model) fails on a reply with a spelling suggestion, where the suggestion is stored, and on
  a reply whose \<^verbatim>\<open>searchinfo\<close> is \<^verbatim>\<open>null\<close>, where nothing is stored and the fixed
  message is returned.
\<close>

theorem zero_evidence_suggestion_counterexample:
  "wiki_get wiki_suggestion_world ''catz'' =
     Inr (JDict [(''batchcomplete'', JStr []),
        (''query'', JDict [(''searchinfo'', JDict [(''totalhits'', JInt 0),
                                                   (''suggestion'', JStr ''cats'')]),
                           (''search'', JList [])])])
   \<and> source_of (fst (combine_results wiki_suggestion_world ''catz'' False True)) ''wikipedia''
       = Inr (JDict [(''results'', JList []), (''suggestion'', JStr ''cats'')])
   \<and> source_of (fst (combine_results wiki_suggestion_world ''catz'' False True)) ''wikipedia''
       \<noteq> Inr (JDict [(''results'', JList []), (''suggestion'', JNull)])
   \<and> wiki_get wiki_null_info_world ''cats'' =
       Inr (JDict [(''query'', JDict [(''searchinfo'', JNull), (''search'', JList [])])])
   \<and> source_of (fst (combine_results wiki_null_info_world ''cats'' False True)) ''wikipedia''
       = Inr (JDict [])
   \<and> generate_answer wiki_null_info_world ''cats''
         (fst (combine_results wiki_null_info_world ''cats'' False True))
       = (Inr no_results_message, [])"
  by (simp add: wiki_get_suggestion_world wiki_get_null_info_world combine_results_suggestion_world
      combine_results_null_info_world source_of_composite generate_answer_composite)

end
